theory Spec2Isabelle
  imports Main
begin

section \<open>Data model\<close>

text \<open>
  A LangChain \<open>Document\<close> carries its text in \<open>page_content\<close> and a free-form
  dictionary \<open>metadata\<close>. The values the pipeline reads and writes there are strings,
  integers, booleans and \<open>None\<close>.
\<close>

datatype pyval = PyNone | PyStr string | PyInt int | PyBool bool

record document =
  page_content :: string
  metadata :: "string \<rightharpoonup> pyval"

datatype py_error =
    FileNotFoundError string
  | NotADirectoryError string
  | ValueError string
  | KeyError string
  | DuplicateIDError

subsection \<open>Python's \<open>str\<close> on the metadata values\<close>

definition digit_char :: "nat \<Rightarrow> char" where
  "digit_char d = ''0123456789'' ! d"

function str_nat :: "nat \<Rightarrow> string" where
  "str_nat n = (if n < 10 then [digit_char n] else str_nat (n div 10) @ [digit_char (n mod 10)])"
  by pat_completeness auto
termination
  by (relation "measure id") auto

declare str_nat.simps [simp del]

definition str_int :: "int \<Rightarrow> string" where
  "str_int i = (if i < 0 then CHR ''-'' # str_nat (nat (- i)) else str_nat (nat i))"

text \<open>What an f-string slot \<open>{v}\<close> renders for a value \<open>v\<close>.\<close>

fun py_str :: "pyval \<Rightarrow> string" where
  "py_str PyNone = ''None''"
| "py_str (PyStr s) = s"
| "py_str (PyInt i) = str_int i"
| "py_str (PyBool b) = (if b then ''True'' else ''False'')"

text \<open>\<open>d.get(key)\<close>: the value, or \<open>None\<close> when the key is absent.\<close>

definition dict_get :: "(string \<rightharpoonup> pyval) \<Rightarrow> string \<Rightarrow> pyval" where
  "dict_get d k = (case d k of None \<Rightarrow> PyNone | Some v \<Rightarrow> v)"

section \<open>Chunk identification (\<open>database.py\<close>)\<close>

text \<open>
  \<open>current_page_id = f"{source}:{page}"\<close> of one chunk.
\<close>

definition page_key :: "document \<Rightarrow> string" where
  "page_key chunk =
     (let source = dict_get (metadata chunk) ''source'';
          page = dict_get (metadata chunk) ''page''
      in py_str source @ '':'' @ py_str page)"

text \<open>
  The body of the \<open>for\<close> loop of \<open>calculate_chunk_ids\<close>, with the two loop variables
  \<open>last_page_id\<close> (initially \<open>None\<close>) and \<open>current_chunk_index\<close> passed along. The
  result lists the chunks as the loop leaves them.
\<close>

fun calculate_chunk_ids_loop :: "string option \<Rightarrow> nat \<Rightarrow> document list \<Rightarrow> document list" where
  "calculate_chunk_ids_loop last_page_id current_chunk_index [] = []"
| "calculate_chunk_ids_loop last_page_id current_chunk_index (chunk # chunks) =
     (let current_page_id = page_key chunk;
          current_chunk_index =
            (if Some current_page_id = last_page_id then current_chunk_index + 1 else 0);
          chunk_id = current_page_id @ '':'' @ str_nat current_chunk_index;
          chunk = chunk\<lparr>metadata := (metadata chunk)(''id'' \<mapsto> PyStr chunk_id)\<rparr>
      in chunk # calculate_chunk_ids_loop (Some current_page_id) current_chunk_index chunks)"

definition calculate_chunk_ids :: "document list \<Rightarrow> document list" where
  "calculate_chunk_ids chunks = calculate_chunk_ids_loop None 0 chunks"


text \<open>The value \<open>chunk.metadata["id"]\<close> a chunk carries, if any.\<close>

definition chunk_id :: "document \<Rightarrow> pyval option" where
  "chunk_id chunk = metadata chunk ''id''"

text \<open>
  The successive values of \<open>current_chunk_index\<close> along a sequence of page keys, from
  given values of the two loop variables: the loop of \<open>calculate_chunk_ids\<close> seen on
  the page keys alone.
\<close>

fun chunk_indices :: "string option \<Rightarrow> nat \<Rightarrow> string list \<Rightarrow> nat list" where
  "chunk_indices last_page_id current_chunk_index [] = []"
| "chunk_indices last_page_id current_chunk_index (current_page_id # keys) =
     (let current_chunk_index =
            (if Some current_page_id = last_page_id then current_chunk_index + 1 else 0)
      in current_chunk_index # chunk_indices (Some current_page_id) current_chunk_index keys)"

text \<open>
  The index as the specification words it: 0 for the first chunk; for a later chunk, one
  more than its predecessor's index when both have the same page key, and 0 otherwise.
\<close>

fun assigned_index :: "string list \<Rightarrow> nat \<Rightarrow> nat" where
  "assigned_index keys 0 = 0"
| "assigned_index keys (Suc i) =
     (if keys ! Suc i = keys ! i then assigned_index keys i + 1 else 0)"

text \<open>
  A sequence is page-grouped when equal entries are adjacent: once the run of an entry
  has ended, that entry does not come back.
\<close>

fun grouped :: "'a list \<Rightarrow> bool" where
  "grouped [] = True"
| "grouped (k # ks) = (k \<notin> set (dropWhile (\<lambda>x. x = k) ks) \<and> grouped ks)"

text \<open>
  The chunks of one page are adjacent in a sequence of page keys when the page key occurs
  in one run only: after its first run has ended it does not come back.
\<close>

definition page_adjacent :: "'a \<Rightarrow> 'a list \<Rightarrow> bool" where
  "page_adjacent k ks = (k \<notin> set (dropWhile (\<lambda>x. x = k) (dropWhile (\<lambda>x. x \<noteq> k) ks)))"

text \<open>
  The sequence index of the data model: the 0-based position of a chunk among the chunks
  of its page, that is the number of earlier chunks with the same page key
  \<open>source:page\<close>.
\<close>

definition sequence_index :: "document list \<Rightarrow> nat \<Rightarrow> nat" where
  "sequence_index chunks i =
     length (filter (\<lambda>c. page_key c = page_key (chunks ! i)) (take i chunks))"

text \<open>The chunks of one page, in batch order, and the \<open>n\<close>-th id of a page.\<close>

definition page_chunks :: "string \<Rightarrow> document list \<Rightarrow> document list" where
  "page_chunks k chunks = filter (\<lambda>c. page_key c = k) chunks"

definition page_id :: "string \<Rightarrow> nat \<Rightarrow> pyval option" where
  "page_id k n = Some (PyStr (k @ '':'' @ str_nat n))"

text \<open>What the pass reads of a chunk: the \<open>source\<close> and \<open>page\<close> entries of its metadata.\<close>

definition source_page :: "document \<Rightarrow> pyval \<times> pyval" where
  "source_page chunk = (dict_get (metadata chunk) ''source'', dict_get (metadata chunk) ''page'')"

subsection \<open>The same pass over chunk objects in a store\<close>

text \<open>
  \<open>calculate_chunk_ids\<close> writes into the \<open>Document\<close> objects it is given and returns
  the list it received. Here the objects live in a store, the list holds references, and
  the pass updates the store.
\<close>

type_synonym ref = nat
type_synonym heap = "ref \<Rightarrow> document"

fun calculate_chunk_ids_store_loop :: "string option \<Rightarrow> nat \<Rightarrow> ref list \<Rightarrow> heap \<Rightarrow> heap" where
  "calculate_chunk_ids_store_loop last_page_id current_chunk_index [] h = h"
| "calculate_chunk_ids_store_loop last_page_id current_chunk_index (r # chunks) h =
     (let chunk = h r;
          current_page_id = page_key chunk;
          current_chunk_index =
            (if Some current_page_id = last_page_id then current_chunk_index + 1 else 0);
          chunk_id = current_page_id @ '':'' @ str_nat current_chunk_index;
          h = h(r := chunk\<lparr>metadata := (metadata chunk)(''id'' \<mapsto> PyStr chunk_id)\<rparr>)
      in calculate_chunk_ids_store_loop (Some current_page_id) current_chunk_index chunks h)"

definition calculate_chunk_ids_store :: "ref list \<Rightarrow> heap \<Rightarrow> ref list \<times> heap" where
  "calculate_chunk_ids_store chunks h = (chunks, calculate_chunk_ids_store_loop None 0 chunks h)"

section \<open>Loading and splitting (\<open>database.py\<close>)\<close>

text \<open>
  The file system as \<open>os.path.exists\<close> and \<open>os.listdir\<close> see it: a path is absent, a
  file, or a directory with its entry names.
\<close>

datatype fs_node = File | Dir "string list"

type_synonym filesystem = "string \<rightharpoonup> fs_node"

definition os_path_exists :: "filesystem \<Rightarrow> string \<Rightarrow> bool" where
  "os_path_exists fs path = (fs path \<noteq> None)"

definition os_listdir :: "filesystem \<Rightarrow> string \<Rightarrow> py_error + string list" where
  "os_listdir fs path =
     (case fs path of
        None \<Rightarrow> Inl (FileNotFoundError path)
      | Some File \<Rightarrow> Inl (NotADirectoryError path)
      | Some (Dir entries) \<Rightarrow> Inr entries)"

definition DATA_PATH :: string where
  "DATA_PATH = ''books''"

text \<open>
  \<open>PyPDFDirectoryLoader(directory_path).load()\<close> is a collaborator: \<open>pdf_load\<close> stands
  for the documents it yields for a directory.
\<close>

definition load_documents_from_directory ::
  "filesystem \<Rightarrow> (string \<Rightarrow> document list) \<Rightarrow> string \<Rightarrow> py_error + document list" where
  "load_documents_from_directory fs pdf_load directory_path =
     (if \<not> os_path_exists fs directory_path
      then Inl (FileNotFoundError (''Directory '' @ directory_path @ '' does not exist''))
      else case os_listdir fs directory_path of
             Inl e \<Rightarrow> Inl e
           | Inr entries \<Rightarrow>
               if entries = []
               then Inl (ValueError (''Directory '' @ directory_path @ '' is empty''))
               else Inr (pdf_load directory_path))"

text \<open>
  An entry the PDF directory loader picks up: a name ending in \<open>.pdf\<close> that does not
  start with a dot.
\<close>

definition ingestible :: "string \<Rightarrow> bool" where
  "ingestible name =
     (4 < length name \<and> take 1 name \<noteq> ''.'' \<and> drop (length name - 4) name = ''.pdf'')"

text \<open>
  \<open>RecursiveCharacterTextSplitter\<close> is a collaborator. Its constructor checks the two
  sizes and raises \<open>ValueError\<close> for a chunk size that is not positive, for a negative
  overlap and for an overlap larger than the chunk size; \<open>splitter_init\<close> is that check,
  with the error it raises, if any. \<open>text_splitter chunk_size chunk_overlap\<close> stands for
  \<open>split_documents\<close> of the splitter built from valid sizes.
\<close>

definition splitter_init :: "int \<Rightarrow> int \<Rightarrow> py_error option" where
  "splitter_init chunk_size chunk_overlap =
     (if chunk_size \<le> 0
      then Some (ValueError (''chunk_size must be > 0, got '' @ str_int chunk_size))
      else if chunk_overlap < 0
      then Some (ValueError (''chunk_overlap must be >= 0, got '' @ str_int chunk_overlap))
      else if chunk_overlap > chunk_size
      then Some (ValueError (''Got a larger chunk overlap ('' @ str_int chunk_overlap @
                             '') than chunk size ('' @ str_int chunk_size @
                             ''), should be smaller.''))
      else None)"

definition split_documents ::
  "(int \<Rightarrow> int \<Rightarrow> document list \<Rightarrow> document list) \<Rightarrow> document list \<Rightarrow> int \<Rightarrow> int
     \<Rightarrow> py_error + document list" where
  "split_documents text_splitter documents chunk_size chunk_overlap =
     (if documents = [] then Inl (ValueError ''No documents to split'')
      else case splitter_init chunk_size chunk_overlap of
             Some e \<Rightarrow> Inl e
           | None \<Rightarrow> Inr (text_splitter chunk_size chunk_overlap documents))"

section \<open>Incremental ingestion (\<open>database.py\<close>)\<close>

text \<open>
  The vector store is a collaborator. Its collection is kept as the list of records in
  insertion order, each under its id; \<open>db.get(include=[])["ids"]\<close> lists the ids, and
  \<open>db.add_documents(docs, ids=ids)\<close> upserts each document under its id: it replaces the
  record of an id that is there and appends a record for an id that is not. A call whose
  ids are not pairwise distinct is refused with \<open>DuplicateIDError\<close> and stores nothing.
  Embeddings are computed inside the store and are not part of the model.
\<close>

type_synonym chroma = "(pyval \<times> document) list"

definition db_get_ids :: "chroma \<Rightarrow> pyval list" where
  "db_get_ids db = map fst db"

fun upsert :: "pyval \<Rightarrow> document \<Rightarrow> chroma \<Rightarrow> chroma" where
  "upsert i d [] = [(i, d)]"
| "upsert i d ((j, e) # db) = (if j = i then (i, d) # db else (j, e) # upsert i d db)"

fun upsert_all :: "chroma \<Rightarrow> document list \<Rightarrow> pyval list \<Rightarrow> chroma" where
  "upsert_all db (d # docs) (i # ids) = upsert_all (upsert i d db) docs ids"
| "upsert_all db docs ids = db"

definition add_documents :: "chroma \<Rightarrow> document list \<Rightarrow> pyval list \<Rightarrow> py_error + chroma" where
  "add_documents db docs ids =
     (if \<not> distinct ids then Inl DuplicateIDError else Inr (upsert_all db docs ids))"

text \<open>The calls \<open>add_to_chroma\<close> makes on the store client after opening it and reading the ids.\<close>

datatype db_call = AddDocuments "document list" "pyval list" | Persist

text \<open>
  What a run has done when it ends or raises: the lines it printed, the calls it made on
  the store, and the store it leaves. A run that raises is \<open>Inl\<close> of the error with
  what was done before it; a run that ends is \<open>Inr\<close>.
\<close>

record ingest_result =
  output_lines :: "string list"
  calls :: "db_call list"
  db_after :: chroma

type_synonym ingest_outcome = "(py_error \<times> ingest_result) + ingest_result"

definition effects :: "ingest_outcome \<Rightarrow> ingest_result" where
  "effects outcome = (case outcome of Inl (e, r) \<Rightarrow> r | Inr r \<Rightarrow> r)"

text \<open>\<open>chunk.metadata["id"]\<close>: a missing key raises \<open>KeyError\<close>.\<close>

definition metadata_id :: "document \<Rightarrow> py_error + pyval" where
  "metadata_id chunk =
     (case metadata chunk ''id'' of None \<Rightarrow> Inl (KeyError ''id'') | Some v \<Rightarrow> Inr v)"

text \<open>
  \<open>[chunk for chunk in chunks_with_ids if chunk.metadata["id"] not in existing_ids]\<close>
\<close>

fun select_new_chunks :: "pyval set \<Rightarrow> document list \<Rightarrow> py_error + document list" where
  "select_new_chunks existing_ids [] = Inr []"
| "select_new_chunks existing_ids (chunk # chunks) =
     (case metadata_id chunk of
        Inl e \<Rightarrow> Inl e
      | Inr i \<Rightarrow>
          (case select_new_chunks existing_ids chunks of
             Inl e \<Rightarrow> Inl e
           | Inr new_chunks \<Rightarrow>
               Inr (if i \<notin> existing_ids then chunk # new_chunks else new_chunks)))"

text \<open>\<open>[chunk.metadata["id"] for chunk in new_chunks]\<close>\<close>

fun collect_ids :: "document list \<Rightarrow> py_error + pyval list" where
  "collect_ids [] = Inr []"
| "collect_ids (chunk # chunks) =
     (case metadata_id chunk of
        Inl e \<Rightarrow> Inl e
      | Inr i \<Rightarrow>
          (case collect_ids chunks of
             Inl e \<Rightarrow> Inl e
           | Inr ids \<Rightarrow> Inr (i # ids)))"

definition add_to_chroma :: "chroma \<Rightarrow> document list \<Rightarrow> ingest_outcome" where
  "add_to_chroma db chunks =
     (let chunks_with_ids = calculate_chunk_ids chunks;
          existing_items = db_get_ids db;
          existing_ids = set existing_items;
          count_line = ''Number of existing documents in DB: '' @ str_nat (card existing_ids)
      in case select_new_chunks existing_ids chunks_with_ids of
           Inl e \<Rightarrow> Inl (e, \<lparr>output_lines = [count_line], calls = [], db_after = db\<rparr>)
         | Inr new_chunks \<Rightarrow>
             if new_chunks \<noteq> [] then
               (let adding_line = ''Adding new documents: '' @ str_nat (length new_chunks) in
                case collect_ids new_chunks of
                  Inl e \<Rightarrow>
                    Inl (e, \<lparr>output_lines = [count_line, adding_line], calls = [],
                            db_after = db\<rparr>)
                | Inr new_chunk_ids \<Rightarrow>
                    (case add_documents db new_chunks new_chunk_ids of
                       Inl e \<Rightarrow>
                         Inl (e, \<lparr>output_lines = [count_line, adding_line],
                                 calls = [AddDocuments new_chunks new_chunk_ids],
                                 db_after = db\<rparr>)
                     | Inr stored \<Rightarrow>
                         Inr \<lparr>output_lines = [count_line, adding_line],
                              calls = [AddDocuments new_chunks new_chunk_ids, Persist],
                              db_after = stored\<rparr>))
             else
               Inr \<lparr>output_lines = [count_line, ''No new documents to add''],
                    calls = [],
                    db_after = db\<rparr>)"

text \<open>The documents and ids handed to the store by a sequence of calls.\<close>

fun submitted_chunks :: "db_call list \<Rightarrow> document list" where
  "submitted_chunks [] = []"
| "submitted_chunks (AddDocuments docs ids # cs) = docs @ submitted_chunks cs"
| "submitted_chunks (Persist # cs) = submitted_chunks cs"

fun submitted_ids :: "db_call list \<Rightarrow> pyval list" where
  "submitted_ids [] = []"
| "submitted_ids (AddDocuments docs ids # cs) = ids @ submitted_ids cs"
| "submitted_ids (Persist # cs) = submitted_ids cs"

text \<open>Whether the id a chunk carries is among the ids the store lists.\<close>

definition id_in_store :: "chroma \<Rightarrow> document \<Rightarrow> bool" where
  "id_in_store db chunk = (chunk_id chunk \<in> Some ` set (db_get_ids db))"

text \<open>\<open>clear_database\<close> removes the store directory: the collection is empty afterwards.\<close>

definition clear_database :: "chroma \<Rightarrow> chroma" where
  "clear_database db = []"

text \<open>
  \<open>main\<close> of the ingestion script: \<open>reset\<close> is the \<open>--reset\<close> flag, \<open>db\<close> the store as
  the run finds it.
\<close>

definition main ::
  "bool \<Rightarrow> filesystem \<Rightarrow> (string \<Rightarrow> document list)
     \<Rightarrow> (int \<Rightarrow> int \<Rightarrow> document list \<Rightarrow> document list) \<Rightarrow> chroma \<Rightarrow> ingest_outcome" where
  "main reset fs pdf_load text_splitter db =
     (let db = (if reset then clear_database db else db);
          cleared = (if reset then [''Clearing Database''] else [])
      in case load_documents_from_directory fs pdf_load DATA_PATH of
           Inl e \<Rightarrow> Inl (e, \<lparr>output_lines = cleared, calls = [], db_after = db\<rparr>)
         | Inr documents \<Rightarrow>
             (case split_documents text_splitter documents 1000 200 of
                Inl e \<Rightarrow> Inl (e, \<lparr>output_lines = cleared, calls = [], db_after = db\<rparr>)
              | Inr chunks \<Rightarrow>
                  (case add_to_chroma db chunks of
                     Inl (e, r) \<Rightarrow> Inl (e, r\<lparr>output_lines := cleared @ output_lines r\<rparr>)
                   | Inr r \<Rightarrow> Inr (r\<lparr>output_lines := cleared @ output_lines r\<rparr>))))"

section \<open>Query (\<open>query.py\<close>)\<close>

definition PROMPT_TEMPLATE :: string where
  "PROMPT_TEMPLATE =
     ''\<newline>Answer the question based only on the following context:\<newline>\<newline>{context}\<newline>\<newline>---\<newline>\<newline>Answer the question based on the above context: {question}\<newline>''"

text \<open>
  Filling the named slots of a template, as the prompt template's \<open>format\<close> does for a
  template of literal text and \<open>{name}\<close> fields: the scan is outside a field (\<open>None\<close>) or
  inside one, with the name read so far. A name without a keyword argument raises
  \<open>KeyError\<close>; an unbalanced brace raises \<open>ValueError\<close>.
\<close>

fun format_scan :: "(string \<rightharpoonup> string) \<Rightarrow> string option \<Rightarrow> string \<Rightarrow> py_error + string" where
  "format_scan kwargs None [] = Inr []"
| "format_scan kwargs (Some name) [] = Inl (ValueError ''expected } before end of string'')"
| "format_scan kwargs None (c # cs) =
     (if c = CHR ''{'' then format_scan kwargs (Some []) cs
      else if c = CHR ''}'' then Inl (ValueError ''Single } encountered in format string'')
      else (case format_scan kwargs None cs of
              Inl e \<Rightarrow> Inl e
            | Inr rest \<Rightarrow> Inr (c # rest)))"
| "format_scan kwargs (Some name) (c # cs) =
     (if c = CHR ''}'' then
        (case kwargs name of
           None \<Rightarrow> Inl (KeyError name)
         | Some v \<Rightarrow>
             (case format_scan kwargs None cs of
                Inl e \<Rightarrow> Inl e
              | Inr rest \<Rightarrow> Inr (v @ rest)))
      else format_scan kwargs (Some (name @ [c])) cs)"

definition format_template :: "string \<Rightarrow> (string \<rightharpoonup> string) \<Rightarrow> py_error + string" where
  "format_template template kwargs = format_scan kwargs None template"

text \<open>\<open>sep.join(parts)\<close>\<close>

fun py_join :: "string \<Rightarrow> string list \<Rightarrow> string" where
  "py_join sep [] = []"
| "py_join sep [x] = x"
| "py_join sep (x # y # ys) = x @ sep @ py_join sep (y # ys)"

text \<open>
  \<open>repr\<close> of a metadata value and of a list of them, as an f-string slot renders a list.
  The quoting and escaping of \<open>repr\<close> on a string is Python's own: \<open>repr_str\<close> stands for it.
\<close>

fun py_repr :: "(string \<Rightarrow> string) \<Rightarrow> pyval \<Rightarrow> string" where
  "py_repr repr_str (PyStr s) = repr_str s"
| "py_repr repr_str v = py_str v"

definition py_repr_list :: "(string \<Rightarrow> string) \<Rightarrow> pyval list \<Rightarrow> string" where
  "py_repr_list repr_str vs = ''['' @ py_join '', '' (map (py_repr repr_str) vs) @ '']''"

record query_result =
  printed :: string
  returned :: string

text \<open>
  \<open>query_rag\<close>. The collaborators are parameters: \<open>search q k\<close> is
  \<open>db.similarity_search_with_score(q, k=k)\<close>, \<open>chat_to_string\<close> is the rendering of the
  filled chat prompt as the string passed on, \<open>model_invoke\<close> is the language model.
  \<open>printed\<close> is the argument of \<open>print\<close>.
\<close>

definition query_rag ::
  "(string \<Rightarrow> nat \<Rightarrow> (document \<times> 'score) list) \<Rightarrow> (string \<Rightarrow> string) \<Rightarrow> (string \<Rightarrow> string)
     \<Rightarrow> (string \<Rightarrow> string) \<Rightarrow> string \<Rightarrow> py_error + query_result" where
  "query_rag search chat_to_string model_invoke repr_str query_text =
     (let results = search query_text 5;
          context_text =
            py_join ''\<newline>\<newline>---\<newline>\<newline>'' (map (\<lambda>(doc, score). page_content doc) results)
      in case format_template PROMPT_TEMPLATE
                [''context'' \<mapsto> context_text, ''question'' \<mapsto> query_text] of
           Inl e \<Rightarrow> Inl e
         | Inr filled \<Rightarrow>
             (let prompt = chat_to_string filled;
                  response_text = model_invoke prompt;
                  sources = map (\<lambda>(doc, score). dict_get (metadata doc) ''id'') results;
                  formatted_response =
                    ''Response: '' @ response_text @ ''\<newline>Sources: '' @ py_repr_list repr_str sources
              in Inr \<lparr>printed = formatted_response, returned = response_text\<rparr>))"

section \<open>Sample data\<close>

text \<open>
  A chunk as the loader and the splitter leave it: its text, and the \<open>source\<close> and
  \<open>page\<close> entries of its metadata.
\<close>

definition pdf_chunk :: "string \<Rightarrow> int \<Rightarrow> string \<Rightarrow> document" where
  "pdf_chunk source page text =
     \<lparr>page_content = text, metadata = [''source'' \<mapsto> PyStr source, ''page'' \<mapsto> PyInt page]\<rparr>"

text \<open>
  Two batches of three chunks: one in page order, and one where the page \<open>a.pdf:0\<close> comes
  back after a chunk of another file.
\<close>

definition batch_in_page_order :: "document list" where
  "batch_in_page_order =
     [pdf_chunk ''a.pdf'' 0 ''x'', pdf_chunk ''a.pdf'' 0 ''y'', pdf_chunk ''a.pdf'' 1 ''z'']"

definition batch_interleaved :: "document list" where
  "batch_interleaved =
     [pdf_chunk ''a.pdf'' 0 ''x'', pdf_chunk ''b.pdf'' 0 ''y'', pdf_chunk ''a.pdf'' 0 ''z'']"

text \<open>
  A batch that is not in page order as a whole, the page \<open>a.pdf:0\<close> coming back, while
  the two chunks of the page \<open>a.pdf:1\<close> are adjacent.
\<close>

definition batch_mixed :: "document list" where
  "batch_mixed = batch_interleaved @ [pdf_chunk ''a.pdf'' 1 ''u'', pdf_chunk ''a.pdf'' 1 ''v'']"

text \<open>A store of three chunk objects, at the references 0, 1 and 2.\<close>

definition sample_store :: heap where
  "sample_store r =
     (if r = 0 then pdf_chunk ''a.pdf'' 0 ''x''
      else if r = 1 then pdf_chunk ''a.pdf'' 0 ''y''
      else pdf_chunk ''a.pdf'' 1 ''z'')"

text \<open>A collection that already holds the first chunk of page \<open>a.pdf:0\<close>.\<close>

definition sample_db :: chroma where
  "sample_db = [(PyStr ''a.pdf:0:0'', pdf_chunk ''a.pdf'' 0 ''x'')]"

text \<open>
  A file system whose \<open>books\<close> directory holds one entry that is not a PDF, and a loader
  that finds no document there.
\<close>

definition no_pdf_fs :: filesystem where
  "no_pdf_fs = [''books'' \<mapsto> Dir [''notes.txt'']]"

definition no_documents :: "string \<Rightarrow> document list" where
  "no_documents directory_path = []"

text \<open>A file system whose \<open>books\<close> directory exists and has no entry.\<close>

definition empty_dir_fs :: filesystem where
  "empty_dir_fs = [''books'' \<mapsto> Dir []]"

text \<open>
  A file system whose \<open>books\<close> directory holds one PDF, with a loader and a splitter that
  yield the batch in page order.
\<close>

definition one_pdf_fs :: filesystem where
  "one_pdf_fs = [''books'' \<mapsto> Dir [''a.pdf'']]"

definition sample_load :: "string \<Rightarrow> document list" where
  "sample_load directory_path = batch_in_page_order"

definition sample_splitter :: "int \<Rightarrow> int \<Rightarrow> document list \<Rightarrow> document list" where
  "sample_splitter chunk_size chunk_overlap documents = documents"

text \<open>
  Collaborators for a query: a search with two results, the first carrying an id and the
  second none; a chat rendering that puts the role before the text; a model with a fixed
  answer; and \<open>repr\<close> as it is on strings without quotes, backslashes or control
  characters.
\<close>

definition sample_search :: "string \<Rightarrow> nat \<Rightarrow> (document \<times> int) list" where
  "sample_search query_text k =
     take k [(\<lparr>page_content = ''first'', metadata = [''id'' \<mapsto> PyStr ''a.pdf:0:0'']\<rparr>, 1),
             (pdf_chunk ''b.pdf'' 3 ''second'', 2)]"

definition human_chat :: "string \<Rightarrow> string" where
  "human_chat filled = ''Human: '' @ filled"

definition fixed_model :: "string \<Rightarrow> string" where
  "fixed_model prompt = ''ok''"

definition quote_repr :: "string \<Rightarrow> string" where
  "quote_repr s = [CHR 0x27] @ s @ [CHR 0x27]"

section \<open>Decimal strings and the separator\<close>



lemma digit_cases: "d < 10 \<Longrightarrow> d \<in> {0,1,2,3,4,5,6,7,8,9::nat}"
  by auto

lemma digit_char_inj: "a < 10 \<Longrightarrow> b < 10 \<Longrightarrow> digit_char a = digit_char b \<Longrightarrow> a = b"
  using digit_cases[of a] digit_cases[of b] by (auto simp: digit_char_def)

lemma digit_char_not_colon: "d < 10 \<Longrightarrow> digit_char d \<noteq> CHR '':''"
  using digit_cases[of d] by (auto simp: digit_char_def)

lemma str_nat_not_Nil: "str_nat n \<noteq> []"
  by (subst str_nat.simps) simp

lemma str_nat_inj: "str_nat n = str_nat m \<Longrightarrow> n = m"
proof (induction n arbitrary: m rule: str_nat.induct)
  case (1 n)
  show ?case
  proof (cases "n < 10")
    case small_n: True
    show ?thesis
    proof (cases "m < 10")
      case True
      with small_n "1.prems" show ?thesis
        by (simp add: str_nat.simps[of n] str_nat.simps[of m] digit_char_inj)
    next
      case False
      with small_n "1.prems" show ?thesis
        using str_nat_not_Nil[of "m div 10"]
        by (auto simp: str_nat.simps[of n] str_nat.simps[of m])
    qed
  next
    case big_n: False
    show ?thesis
    proof (cases "m < 10")
      case True
      with big_n "1.prems" show ?thesis
        using str_nat_not_Nil[of "n div 10"]
        by (auto simp: str_nat.simps[of n] str_nat.simps[of m])
    next
      case False
      with big_n "1.prems" have eq: "str_nat (n div 10) = str_nat (m div 10)"
        and d: "digit_char (n mod 10) = digit_char (m mod 10)"
        by (simp_all add: str_nat.simps[of n] str_nat.simps[of m])
      from "1.IH"[OF big_n eq] have "n div 10 = m div 10" .
      moreover from d have "n mod 10 = m mod 10"
        by (intro digit_char_inj) simp_all
      ultimately show ?thesis
        by (metis div_mult_mod_eq)
    qed
  qed
qed

lemma colon_notin_str_nat: "CHR '':'' \<notin> set (str_nat n)"
proof (induction n rule: str_nat.induct)
  case (1 n)
  show ?case
  proof (cases "n < 10")
    case True
    then show ?thesis
      using digit_char_not_colon[of n] by (simp add: str_nat.simps[of n])
  next
    case False
    then show ?thesis
      using "1.IH" digit_char_not_colon[of "n mod 10"] by (simp add: str_nat.simps[of n])
  qed
qed

lemma split_at_last_sep:
  assumes "a @ c # s = b @ c # t" and "c \<notin> set s" and "c \<notin> set t"
  shows "a = b \<and> s = t"
proof -
  have "takeWhile (\<lambda>x. x \<noteq> c) (rev (a @ c # s)) = rev s"
    using assms(2) by (auto simp: takeWhile_tail)
  moreover have "takeWhile (\<lambda>x. x \<noteq> c) (rev (b @ c # t)) = rev t"
    using assms(3) by (auto simp: takeWhile_tail)
  ultimately have "s = t" using assms(1) by simp
  with assms(1) show ?thesis by simp
qed

lemma chunk_id_inj:
  "k @ '':'' @ str_nat n = k' @ '':'' @ str_nat m \<Longrightarrow> k = k' \<and> n = m"
  using split_at_last_sep[of k "CHR '':''" "str_nat n" k' "str_nat m"]
  by (auto simp: colon_notin_str_nat dest: str_nat_inj)


subsection \<open>The loop and its index sequence\<close>

lemma page_key_set_id [simp]:
  "page_key (c\<lparr>metadata := (metadata c)(''id'' \<mapsto> v)\<rparr>) = page_key c"
  by (simp add: page_key_def dict_get_def)

lemma length_loop [simp]: "length (calculate_chunk_ids_loop l n cs) = length cs"
  by (induction cs arbitrary: l n) (simp_all add: Let_def)

lemma length_chunk_indices [simp]: "length (chunk_indices l n ks) = length ks"
  by (induction ks arbitrary: l n) (simp_all add: Let_def)

lemma page_keys_loop [simp]: "map page_key (calculate_chunk_ids_loop l n cs) = map page_key cs"
  by (induction cs arbitrary: l n) (simp_all add: Let_def)

lemma loop_nth:
  "i < length cs \<Longrightarrow>
   calculate_chunk_ids_loop l n cs ! i =
     (cs ! i)\<lparr>metadata := (metadata (cs ! i))(''id'' \<mapsto>
        PyStr (page_key (cs ! i) @ '':'' @ str_nat (chunk_indices l n (map page_key cs) ! i)))\<rparr>"
proof (induction cs arbitrary: l n i)
  case Nil
  then show ?case by simp
next
  case (Cons c cs)
  show ?case
  proof (cases i)
    case 0
    then show ?thesis by (simp add: Let_def fun_upd_def)
  next
    case (Suc j)
    with Cons.prems have "j < length cs" by simp
    from Cons.IH[OF this] Suc show ?thesis by (simp add: Let_def)
  qed
qed

lemma chunk_indices_0:
  "ks \<noteq> [] \<Longrightarrow> chunk_indices l n ks ! 0 = (if Some (ks ! 0) = l then n + 1 else 0)"
  by (cases ks) (simp_all add: Let_def)

lemma chunk_indices_Suc:
  "Suc i < length ks \<Longrightarrow>
   chunk_indices l n ks ! Suc i =
     (if ks ! Suc i = ks ! i then chunk_indices l n ks ! i + 1 else 0)"
proof (induction ks arbitrary: l n i)
  case Nil
  then show ?case by simp
next
  case (Cons k ks)
  show ?case
  proof (cases i)
    case 0
    with Cons.prems have "ks \<noteq> []" by auto
    with 0 show ?thesis by (simp add: Let_def chunk_indices_0)
  next
    case (Suc j)
    with Cons.prems have "Suc j < length ks" by simp
    from Cons.IH[OF this] Suc show ?thesis by (simp add: Let_def)
  qed
qed

lemma chunk_indices_assigned:
  "i < length ks \<Longrightarrow> chunk_indices None 0 ks ! i = assigned_index ks i"
proof (induction i)
  case 0
  then show ?case by (simp add: chunk_indices_0)
next
  case (Suc i)
  then show ?case by (simp add: chunk_indices_Suc)
qed

lemma calculate_chunk_ids_nth:
  "i < length cs \<Longrightarrow>
   calculate_chunk_ids cs ! i =
     (cs ! i)\<lparr>metadata := (metadata (cs ! i))(''id'' \<mapsto>
        PyStr (page_key (cs ! i) @ '':'' @ str_nat (assigned_index (map page_key cs) i)))\<rparr>"
  by (simp add: calculate_chunk_ids_def loop_nth chunk_indices_assigned)

lemma loop_ids_shape:
  "c \<in> set (calculate_chunk_ids_loop l n cs) \<Longrightarrow>
   \<exists>m. chunk_id c = Some (PyStr (page_key c @ '':'' @ str_nat m))"
proof (induction cs arbitrary: l n)
  case Nil
  then show ?case by simp
next
  case (Cons a cs)
  then show ?case by (auto simp: Let_def chunk_id_def)
qed

lemma loop_run_ids:
  "k \<notin> set (dropWhile (\<lambda>x. x = k) (map page_key cs)) \<Longrightarrow>
   map chunk_id (filter (\<lambda>c. page_key c = k) (calculate_chunk_ids_loop (Some k) n cs)) =
     map (\<lambda>m. Some (PyStr (k @ '':'' @ str_nat m)))
       [Suc n ..< Suc n + length (filter (\<lambda>c. page_key c = k) cs)]"
proof (induction cs arbitrary: n)
  case Nil
  then show ?case by simp
next
  case (Cons c cs)
  show ?case
  proof (cases "page_key c = k")
    case True
    with Cons.prems have "k \<notin> set (dropWhile (\<lambda>x. x = k) (map page_key cs))" by simp
    note ih = Cons.IH[OF this, of "Suc n"]
    have out: "map chunk_id (filter (\<lambda>c. page_key c = k)
          (calculate_chunk_ids_loop (Some k) n (c # cs))) =
        Some (PyStr (k @ '':'' @ str_nat (Suc n))) #
        map chunk_id (filter (\<lambda>c. page_key c = k) (calculate_chunk_ids_loop (Some k) (Suc n) cs))"
      using True by (simp add: Let_def chunk_id_def)
    have len: "length (filter (\<lambda>c. page_key c = k) (c # cs)) =
        Suc (length (filter (\<lambda>c. page_key c = k) cs))"
      using True by simp
    have range: "[Suc n ..< Suc n + Suc m] = Suc n # [Suc (Suc n) ..< Suc (Suc n) + m]" for m
      by (subst upt_rec) simp
    show ?thesis by (simp only: out len ih range list.map)
  next
    case False
    with Cons.prems have notin: "k \<notin> set (map page_key (c # cs))" by simp
    have "filter (\<lambda>c. page_key c = k) (calculate_chunk_ids_loop (Some k) n (c # cs)) = []"
    proof -
      have "\<forall>x \<in> set (calculate_chunk_ids_loop (Some k) n (c # cs)). page_key x \<noteq> k"
      proof
        fix x assume "x \<in> set (calculate_chunk_ids_loop (Some k) n (c # cs))"
        then have "page_key x \<in> set (map page_key (calculate_chunk_ids_loop (Some k) n (c # cs)))"
          by (metis image_eqI list.set_map)
        then have "page_key x \<in> set (map page_key (c # cs))"
          by (simp only: page_keys_loop)
        with notin show "page_key x \<noteq> k" by metis
      qed
      then show ?thesis by (simp only: filter_empty_conv)
    qed
    moreover have "filter (\<lambda>c. page_key c = k) (c # cs) = []"
      using notin by (auto simp: filter_empty_conv)
    ultimately show ?thesis by simp
  qed
qed

lemma loop_run_later:
  assumes "k \<notin> set (dropWhile (\<lambda>x. x = k) (map page_key cs))"
    and "c \<in> set (calculate_chunk_ids_loop (Some k) n cs)" and "page_key c = k"
  shows "\<exists>m. n < m \<and> chunk_id c = Some (PyStr (k @ '':'' @ str_nat m))"
proof -
  from assms(2,3) have "chunk_id c \<in> set (map chunk_id
      (filter (\<lambda>c. page_key c = k) (calculate_chunk_ids_loop (Some k) n cs)))"
    by simp
  then have "chunk_id c \<in> set (map (\<lambda>m. Some (PyStr (k @ '':'' @ str_nat m)))
       [Suc n ..< Suc n + length (filter (\<lambda>c. page_key c = k) cs)])"
    by (simp only: loop_run_ids[OF assms(1)])
  then obtain m where "m \<in> set [Suc n ..< Suc n + length (filter (\<lambda>c. page_key c = k) cs)]"
    and "chunk_id c = Some (PyStr (k @ '':'' @ str_nat m))"
    unfolding set_map by blast
  then have "n < m \<and> chunk_id c = Some (PyStr (k @ '':'' @ str_nat m))"
    by (simp only: set_upt atLeastLessThan_iff Suc_le_eq)
  then show ?thesis ..
qed

lemma loop_ids_distinct:
  "grouped (map page_key cs) \<Longrightarrow> distinct (map chunk_id (calculate_chunk_ids_loop l n cs))"
proof (induction cs arbitrary: l n)
  case Nil
  then show ?case by simp
next
  case (Cons c cs)
  from Cons.prems have g: "grouped (map page_key cs)"
    and run: "page_key c \<notin> set (dropWhile (\<lambda>x. x = page_key c) (map page_key cs))"
    by simp_all
  define j where "j = (if Some (page_key c) = l then n + 1 else 0)"
  define rest where "rest = calculate_chunk_ids_loop (Some (page_key c)) j cs"
  have out: "map chunk_id (calculate_chunk_ids_loop l n (c # cs)) =
      Some (PyStr (page_key c @ '':'' @ str_nat j)) # map chunk_id rest"
    by (simp add: Let_def chunk_id_def j_def rest_def)
  have "Some (PyStr (page_key c @ '':'' @ str_nat j)) \<notin> set (map chunk_id rest)"
  proof
    assume "Some (PyStr (page_key c @ '':'' @ str_nat j)) \<in> set (map chunk_id rest)"
    then obtain x where x: "x \<in> set (calculate_chunk_ids_loop (Some (page_key c)) j cs)"
      and idx: "chunk_id x = Some (PyStr (page_key c @ '':'' @ str_nat j))"
      unfolding rest_def by auto
    from loop_ids_shape[OF x] obtain m
      where "chunk_id x = Some (PyStr (page_key x @ '':'' @ str_nat m))" ..
    with idx have "page_key x @ '':'' @ str_nat m = page_key c @ '':'' @ str_nat j"
      by simp
    then have same: "page_key x = page_key c"
      by (rule chunk_id_inj[THEN conjunct1])
    from loop_run_later[OF run x same] obtain m'
      where "j < m'" and "chunk_id x = Some (PyStr (page_key c @ '':'' @ str_nat m'))"
      by blast
    with idx have "page_key c @ '':'' @ str_nat m' = page_key c @ '':'' @ str_nat j"
      by simp
    then have "m' = j"
      by (rule chunk_id_inj[THEN conjunct2])
    with \<open>j < m'\<close> show False by simp
  qed
  moreover have "distinct (map chunk_id rest)"
    unfolding rest_def by (rule Cons.IH[OF g])
  ultimately show ?case by (simp only: out distinct.simps) simp
qed

lemma str_nat_0: "str_nat 0 = ''0''"
  by (simp add: str_nat.simps[of 0] digit_char_def)

lemma chunk_id_nth:
  "i < length cs \<Longrightarrow>
   chunk_id (calculate_chunk_ids cs ! i) =
     Some (PyStr (page_key (cs ! i) @ '':'' @ str_nat (assigned_index (map page_key cs) i)))"
  by (simp add: calculate_chunk_ids_nth chunk_id_def)

lemma length_calculate_chunk_ids [simp]: "length (calculate_chunk_ids cs) = length cs"
  by (simp add: calculate_chunk_ids_def)

lemma page_key_source_page:
  "page_key c = py_str (fst (source_page c)) @ '':'' @ py_str (snd (source_page c))"
  by (simp add: page_key_def source_page_def Let_def)

lemma page_keys_source_page:
  assumes "map source_page cs = map source_page cs'"
  shows "map page_key cs = map page_key cs'"
proof -
  have "map page_key cs = map (\<lambda>p. py_str (fst p) @ '':'' @ py_str (snd p)) (map source_page cs)"
    by (simp add: page_key_source_page)
  also have "\<dots> = map (\<lambda>p. py_str (fst p) @ '':'' @ py_str (snd p)) (map source_page cs')"
    by (simp only: assms)
  also have "\<dots> = map page_key cs'"
    by (simp add: page_key_source_page)
  finally show ?thesis .
qed

lemma ids_from_page_keys:
  assumes keys: "map page_key cs = map page_key cs'"
  shows "map chunk_id (calculate_chunk_ids cs) = map chunk_id (calculate_chunk_ids cs')"
proof (rule nth_equalityI)
  from keys have len: "length cs = length cs'"
    by (rule map_eq_imp_length_eq)
  then show "length (map chunk_id (calculate_chunk_ids cs)) =
        length (map chunk_id (calculate_chunk_ids cs'))"
    by simp
  fix i assume "i < length (map chunk_id (calculate_chunk_ids cs))"
  then have i: "i < length cs" by simp
  with len have i': "i < length cs'" by simp
  from keys i i' have "page_key (cs ! i) = page_key (cs' ! i)"
    by (metis nth_map)
  with i i' keys show "map chunk_id (calculate_chunk_ids cs) ! i =
        map chunk_id (calculate_chunk_ids cs') ! i"
    by (simp add: chunk_id_nth)
qed

subsection \<open>The pass over the store\<close>

lemma store_loop_outside:
  "r \<notin> set rs \<Longrightarrow> calculate_chunk_ids_store_loop l n rs h r = h r"
  by (induction rs arbitrary: l n h) (auto simp: Let_def)

lemma store_loop_page_content:
  "page_content (calculate_chunk_ids_store_loop l n rs h r) = page_content (h r)"
  by (induction rs arbitrary: l n h) (auto simp: Let_def)

lemma store_loop_metadata:
  "k \<noteq> ''id'' \<Longrightarrow> metadata (calculate_chunk_ids_store_loop l n rs h r) k = metadata (h r) k"
  by (induction rs arbitrary: l n h) (auto simp: Let_def)

lemma store_loop_distinct:
  "distinct rs \<Longrightarrow>
   map (calculate_chunk_ids_store_loop l n rs h) rs = calculate_chunk_ids_loop l n (map h rs)"
proof (induction rs arbitrary: l n h)
  case Nil
  then show ?case by simp
next
  case (Cons r rs)
  then have fresh: "r \<notin> set rs" and d: "distinct rs" by simp_all
  define j where "j = (if Some (page_key (h r)) = l then n + 1 else 0)"
  define c where "c = (h r)\<lparr>metadata := (metadata (h r))(''id'' \<mapsto>
     PyStr (page_key (h r) @ '':'' @ str_nat j))\<rparr>"
  have step: "calculate_chunk_ids_store_loop l n (r # rs) h =
      calculate_chunk_ids_store_loop (Some (page_key (h r))) j rs (h(r := c))"
    by (simp add: Let_def j_def c_def)
  have same: "map (h(r := c)) rs = map h rs"
    using fresh by (induction rs) auto
  have "calculate_chunk_ids_store_loop (Some (page_key (h r))) j rs (h(r := c)) r = c"
    using fresh by (simp add: store_loop_outside)
  moreover have "map (calculate_chunk_ids_store_loop (Some (page_key (h r))) j rs (h(r := c))) rs =
      calculate_chunk_ids_loop (Some (page_key (h r))) j (map h rs)"
    using Cons.IH[OF d, of "Some (page_key (h r))" j "h(r := c)"] by (simp only: same)
  moreover have "calculate_chunk_ids_loop l n (map h (r # rs)) =
      c # calculate_chunk_ids_loop (Some (page_key (h r))) j (map h rs)"
    by (simp add: Let_def j_def c_def)
  ultimately show ?case by (simp only: step list.map)
qed

subsection \<open>Page keys of typed chunks\<close>

lemma digit_char_not_minus: "d < 10 \<Longrightarrow> digit_char d \<noteq> CHR ''-''"
  using digit_cases[of d] by (auto simp: digit_char_def)

lemma minus_notin_str_nat: "CHR ''-'' \<notin> set (str_nat n)"
proof (induction n rule: str_nat.induct)
  case (1 n)
  show ?case
  proof (cases "n < 10")
    case True
    then show ?thesis
      using digit_char_not_minus[of n] by (simp add: str_nat.simps[of n])
  next
    case False
    then show ?thesis
      using "1.IH" digit_char_not_minus[of "n mod 10"] by (simp add: str_nat.simps[of n])
  qed
qed

lemma str_nat_hd_not_minus: "str_nat n \<noteq> CHR ''-'' # s"
  using minus_notin_str_nat[of n] by (metis list.set_intros(1))

lemma str_int_inj: "str_int i = str_int j \<Longrightarrow> i = j"
proof -
  assume eq: "str_int i = str_int j"
  show ?thesis
  proof (cases "i < 0")
    case neg_i: True
    show ?thesis
    proof (cases "j < 0")
      case True
      with neg_i eq have "str_nat (nat (- i)) = str_nat (nat (- j))"
        by (simp add: str_int_def)
      then have "nat (- i) = nat (- j)" by (rule str_nat_inj)
      with neg_i True show ?thesis by simp
    next
      case False
      with neg_i eq show ?thesis
        using str_nat_hd_not_minus[of "nat j" "str_nat (nat (- i))"]
        by (simp add: str_int_def)
    qed
  next
    case pos_i: False
    show ?thesis
    proof (cases "j < 0")
      case True
      with pos_i eq show ?thesis
        using str_nat_hd_not_minus[of "nat i" "str_nat (nat (- j))"]
        by (simp add: str_int_def)
    next
      case False
      with pos_i eq have "str_nat (nat i) = str_nat (nat j)"
        by (simp add: str_int_def)
      then have "nat i = nat j" by (rule str_nat_inj)
      with pos_i False show ?thesis by simp
    qed
  qed
qed

lemma colon_notin_str_int: "CHR '':'' \<notin> set (str_int i)"
  by (simp add: str_int_def colon_notin_str_nat)

lemma page_key_pdf_chunk: "page_key (pdf_chunk s p t) = s @ '':'' @ str_int p"
  by (simp add: page_key_def pdf_chunk_def dict_get_def)

lemma page_key_pdf_chunk_eq:
  "(page_key (pdf_chunk s p t) = page_key (pdf_chunk s' p' t')) = (s = s' \<and> p = p')"
proof
  assume "page_key (pdf_chunk s p t) = page_key (pdf_chunk s' p' t')"
  then have "s @ CHR '':'' # str_int p = s' @ CHR '':'' # str_int p'"
    by (simp add: page_key_pdf_chunk)
  then have "s = s' \<and> str_int p = str_int p'"
    by (rule split_at_last_sep) (rule colon_notin_str_int)+
  then show "s = s' \<and> p = p'"
    by (auto dest: str_int_inj)
next
  assume "s = s' \<and> p = p'"
  then show "page_key (pdf_chunk s p t) = page_key (pdf_chunk s' p' t')"
    by (simp add: page_key_pdf_chunk)
qed

subsection \<open>Pages whose chunks are adjacent\<close>

lemma loop_adjacent_page_ids:
  "page_adjacent k (map page_key cs) \<Longrightarrow> l \<noteq> Some k \<Longrightarrow>
   map chunk_id (filter (\<lambda>c. page_key c = k) (calculate_chunk_ids_loop l n cs)) =
     map (\<lambda>m. Some (PyStr (k @ '':'' @ str_nat m)))
       [0 ..< length (filter (\<lambda>c. page_key c = k) cs)]"
proof (induction cs arbitrary: l n)
  case Nil
  then show ?case by simp
next
  case (Cons c cs)
  show ?case
  proof (cases "page_key c = k")
    case True
    with Cons.prems(2) have fresh: "Some (page_key c) \<noteq> l" by auto
    from Cons.prems(1) True have "k \<notin> set (dropWhile (\<lambda>x. x = k) (map page_key cs))"
      by (simp add: page_adjacent_def)
    note tail = loop_run_ids[OF this, of 0]
    have out: "map chunk_id (filter (\<lambda>c. page_key c = k) (calculate_chunk_ids_loop l n (c # cs))) =
        Some (PyStr (k @ '':'' @ str_nat 0)) #
        map chunk_id (filter (\<lambda>c. page_key c = k) (calculate_chunk_ids_loop (Some k) 0 cs))"
      using True fresh by (simp add: Let_def chunk_id_def)
    have len: "length (filter (\<lambda>c. page_key c = k) (c # cs)) =
        Suc (length (filter (\<lambda>c. page_key c = k) cs))"
      using True by simp
    have range: "[0 ..< Suc m] = 0 # [Suc 0 ..< Suc 0 + m]" for m
      by (subst upt_rec) simp
    show ?thesis by (simp only: out len tail range list.map)
  next
    case False
    with Cons.prems(1) have adj: "page_adjacent k (map page_key cs)"
      by (simp add: page_adjacent_def)
    from False have "Some (page_key c) \<noteq> Some k" by simp
    from Cons.IH[OF adj this] False show ?thesis
      by (simp add: Let_def)
  qed
qed

lemma loop_take:
  "calculate_chunk_ids_loop l n (take m cs) = take m (calculate_chunk_ids_loop l n cs)"
proof (induction cs arbitrary: l n m)
  case Nil
  then show ?case by simp
next
  case (Cons c cs)
  then show ?case by (cases m) (simp_all add: Let_def)
qed

lemma last_filter_keep:
  "xs \<noteq> [] \<Longrightarrow> P (last xs) \<Longrightarrow> last (filter P xs) = last xs"
  by (induction xs rule: rev_induct) simp_all

lemma id_at_adjacent_page:
  assumes i: "i < length cs"
    and adj: "page_adjacent (page_key (cs ! i)) (take (Suc i) (map page_key cs))"
  shows "chunk_id (calculate_chunk_ids cs ! i) =
     Some (PyStr (page_key (cs ! i) @ '':'' @ str_nat (sequence_index cs i)))"
proof -
  define k where "k = page_key (cs ! i)"
  define pre where "pre = take (Suc i) cs"
  define out where "out = calculate_chunk_ids_loop None 0 pre"
  have pre: "pre = take i cs @ [cs ! i]"
    using i by (simp add: pre_def take_Suc_conv_app_nth)
  have count: "length (filter (\<lambda>c. page_key c = k) pre) = Suc (sequence_index cs i)"
    by (simp add: pre sequence_index_def k_def)
  have "page_adjacent k (map page_key pre)"
    using adj by (simp add: k_def pre_def take_map)
  then have ids: "map chunk_id (filter (\<lambda>c. page_key c = k) out) =
      map (\<lambda>m. Some (PyStr (k @ '':'' @ str_nat m))) [0 ..< Suc (sequence_index cs i)]"
    unfolding out_def using loop_adjacent_page_ids[of k pre None 0] count by simp
  have out_take: "out = take (Suc i) (calculate_chunk_ids cs)"
    by (simp add: out_def pre_def loop_take calculate_chunk_ids_def)
  have len_out: "length out = Suc i"
    using i by (simp add: out_take)
  then have nonempty: "out \<noteq> []" by auto
  have last_out: "last out = calculate_chunk_ids cs ! i"
    using i len_out nonempty by (simp add: last_conv_nth out_take)
  have "page_key (last out) = k"
  proof -
    have "map page_key out = map page_key pre"
      by (simp add: out_def)
    then have "last (map page_key out) = last (map page_key pre)" by simp
    with nonempty pre show ?thesis
      by (simp add: last_map k_def)
  qed
  with nonempty have keep: "last (filter (\<lambda>c. page_key c = k) out) = last out"
    by (simp add: last_filter_keep)
  from keep nonempty \<open>page_key (last out) = k\<close>
  have fne: "filter (\<lambda>c. page_key c = k) out \<noteq> []"
    by (metis (mono_tags, lifting) filter_empty_conv last_in_set)
  have "chunk_id (last out) = last (map chunk_id (filter (\<lambda>c. page_key c = k) out))"
    using fne keep by (simp add: last_map)
  also have "\<dots> = last (map (\<lambda>m. Some (PyStr (k @ '':'' @ str_nat m)))
      [0 ..< Suc (sequence_index cs i)])"
    by (simp only: ids)
  also have "\<dots> = Some (PyStr (k @ '':'' @ str_nat (sequence_index cs i)))"
    by (simp add: last_map)
  finally show ?thesis
    by (simp add: last_out k_def)
qed

lemma page_zero_id_present:
  "l \<noteq> Some k \<Longrightarrow> k \<in> set (map page_key cs) \<Longrightarrow>
   Some (PyStr (k @ '':'' @ str_nat 0)) \<in>
     set (map chunk_id (filter (\<lambda>c. page_key c = k) (calculate_chunk_ids_loop l n cs)))"
proof (induction cs arbitrary: l n)
  case Nil
  then show ?case by simp
next
  case (Cons c cs)
  show ?case
  proof (cases "page_key c = k")
    case True
    with Cons.prems(1) have "Some (page_key c) \<noteq> l" by auto
    with True show ?thesis by (simp add: Let_def chunk_id_def)
  next
    case False
    with Cons.prems(2) have mem: "k \<in> set (map page_key cs)" by auto
    from False have "Some (page_key c) \<noteq> Some k" by simp
    from Cons.IH[OF this mem] False show ?thesis by (simp add: Let_def)
  qed
qed

lemma run_without_zero_id:
  "Some (PyStr (k @ '':'' @ str_nat 0)) \<notin>
     set (map chunk_id (filter (\<lambda>c. page_key c = k) (calculate_chunk_ids_loop (Some k) m cs))) \<Longrightarrow>
   k \<notin> set (dropWhile (\<lambda>x. x = k) (map page_key cs))"
proof (induction cs arbitrary: m)
  case Nil
  then show ?case by simp
next
  case (Cons c cs)
  show ?case
  proof (cases "page_key c = k")
    case True
    with Cons.prems have "Some (PyStr (k @ '':'' @ str_nat 0)) \<notin>
        set (map chunk_id (filter (\<lambda>c. page_key c = k)
          (calculate_chunk_ids_loop (Some k) (Suc m) cs)))"
      by (simp add: Let_def)
    from Cons.IH[OF this] True show ?thesis by simp
  next
    case False
    then have other: "Some (page_key c) \<noteq> Some k" by simp
    have "k \<notin> set (map page_key cs)"
    proof
      assume "k \<in> set (map page_key cs)"
      from page_zero_id_present[OF other this, of 0] Cons.prems False
      show False by (simp add: Let_def)
    qed
    with False show ?thesis by simp
  qed
qed

lemma distinct_page_ids_adjacent:
  "l \<noteq> Some k \<Longrightarrow>
   distinct (map chunk_id (filter (\<lambda>c. page_key c = k) (calculate_chunk_ids_loop l n cs))) \<Longrightarrow>
   page_adjacent k (map page_key cs)"
proof (induction cs arbitrary: l n)
  case Nil
  then show ?case by (simp add: page_adjacent_def)
next
  case (Cons c cs)
  show ?case
  proof (cases "page_key c = k")
    case True
    with Cons.prems(1) have fresh: "Some (page_key c) \<noteq> l" by auto
    with True Cons.prems(2) have "Some (PyStr (k @ '':'' @ str_nat 0)) \<notin>
        set (map chunk_id (filter (\<lambda>c. page_key c = k) (calculate_chunk_ids_loop (Some k) 0 cs)))"
      by (simp add: Let_def chunk_id_def)
    from run_without_zero_id[OF this] True show ?thesis
      by (simp add: page_adjacent_def)
  next
    case False
    then have other: "Some (page_key c) \<noteq> Some k" by simp
    from Cons.prems(2) False
    have "distinct (map chunk_id (filter (\<lambda>c. page_key c = k)
        (calculate_chunk_ids_loop (Some (page_key c)) (if Some (page_key c) = l then n + 1 else 0) cs)))"
      by (simp add: Let_def)
    from Cons.IH[OF other this] False show ?thesis
      by (simp add: page_adjacent_def)
  qed
qed

lemma distinct_page_id_range: "distinct (map (page_id k) [0 ..< n])"
proof -
  have "inj (page_id k)"
    by (rule injI) (simp add: page_id_def str_nat_inj)
  then show ?thesis
    by (simp add: distinct_map inj_on_def)
qed

section \<open>Deduplication and the store\<close>

lemma metadata_id_Some: "chunk_id c = Some v \<Longrightarrow> metadata_id c = Inr v"
  by (simp add: metadata_id_def chunk_id_def)

lemma select_new_chunks_tagged:
  "\<forall>c \<in> set cs. chunk_id c \<noteq> None \<Longrightarrow>
   select_new_chunks ex cs = Inr (filter (\<lambda>c. chunk_id c \<notin> Some ` ex) cs)"
proof (induction cs)
  case Nil
  then show ?case by simp
next
  case (Cons c cs)
  then obtain v where v: "chunk_id c = Some v" by auto
  from Cons have "select_new_chunks ex cs = Inr (filter (\<lambda>c. chunk_id c \<notin> Some ` ex) cs)"
    by simp
  with v show ?case by (auto simp: metadata_id_Some)
qed

lemma collect_ids_tagged:
  "\<forall>c \<in> set cs. chunk_id c \<noteq> None \<Longrightarrow>
   \<exists>ids. collect_ids cs = Inr ids \<and> map Some ids = map chunk_id cs"
proof (induction cs)
  case Nil
  then show ?case by simp
next
  case (Cons c cs)
  then obtain v where v: "chunk_id c = Some v" by auto
  from Cons obtain ids where "collect_ids cs = Inr ids" and "map Some ids = map chunk_id cs"
    by auto
  with v show ?case by (simp add: metadata_id_Some)
qed

lemma calculate_chunk_ids_tagged:
  "c \<in> set (calculate_chunk_ids cs) \<Longrightarrow> chunk_id c \<noteq> None"
  unfolding calculate_chunk_ids_def using loop_ids_shape by fastforce

lemma upsert_keys: "set (map fst (upsert i d db)) = insert i (set (map fst db))"
  by (induction i d db rule: upsert.induct) (simp_all add: insert_commute)

lemma upsert_ids: "set (db_get_ids (upsert i d db)) = insert i (set (db_get_ids db))"
  unfolding db_get_ids_def by (rule upsert_keys)

lemma upsert_all_ids:
  "length docs = length ids \<Longrightarrow>
   set (db_get_ids (upsert_all db docs ids)) = set ids \<union> set (db_get_ids db)"
  by (induction db docs ids rule: upsert_all.induct) (simp_all add: upsert_ids)

lemma add_to_chroma_cases:
  fixes db chunks
  defines "new \<equiv> filter (\<lambda>c. \<not> id_in_store db c) (calculate_chunk_ids chunks)"
  defines "count_line \<equiv>
    ''Number of existing documents in DB: '' @ str_nat (card (set (db_get_ids db)))"
  defines "adding_line \<equiv> ''Adding new documents: '' @ str_nat (length new)"
  shows "\<exists>ids. map Some ids = map chunk_id new \<and>
     add_to_chroma db chunks =
       (if new = [] then
          Inr \<lparr>output_lines = [count_line, ''No new documents to add''], calls = [],
               db_after = db\<rparr>
        else if \<not> distinct ids then
          Inl (DuplicateIDError,
               \<lparr>output_lines = [count_line, adding_line], calls = [AddDocuments new ids],
                db_after = db\<rparr>)
        else
          Inr \<lparr>output_lines = [count_line, adding_line],
               calls = [AddDocuments new ids, Persist],
               db_after = upsert_all db new ids\<rparr>)"
proof -
  have tagged: "\<forall>c \<in> set (calculate_chunk_ids chunks). chunk_id c \<noteq> None"
    using calculate_chunk_ids_tagged by blast
  have sel: "select_new_chunks (set (db_get_ids db)) (calculate_chunk_ids chunks) = Inr new"
    unfolding new_def id_in_store_def by (rule select_new_chunks_tagged[OF tagged])
  have "\<forall>c \<in> set new. chunk_id c \<noteq> None"
    using tagged by (simp add: new_def)
  from collect_ids_tagged[OF this] obtain ids
    where ids: "collect_ids new = Inr ids" and some: "map Some ids = map chunk_id new"
    by blast
  have "add_to_chroma db chunks =
       (if new = [] then
          Inr \<lparr>output_lines = [count_line, ''No new documents to add''], calls = [],
               db_after = db\<rparr>
        else if \<not> distinct ids then
          Inl (DuplicateIDError,
               \<lparr>output_lines = [count_line, adding_line], calls = [AddDocuments new ids],
                db_after = db\<rparr>)
        else
          Inr \<lparr>output_lines = [count_line, adding_line],
               calls = [AddDocuments new ids, Persist],
               db_after = upsert_all db new ids\<rparr>)"
    using sel ids
    by (simp add: add_to_chroma_def Let_def add_documents_def count_line_def adding_line_def)
  with some show ?thesis by (intro exI[of _ ids] conjI)
qed

lemma noop_when_all_in_store:
  assumes "\<forall>c \<in> set (calculate_chunk_ids chunks). id_in_store db c"
  shows "add_to_chroma db chunks =
     Inr \<lparr>output_lines =
            [''Number of existing documents in DB: '' @ str_nat (card (set (db_get_ids db))),
             ''No new documents to add''],
          calls = [], db_after = db\<rparr>"
proof -
  have "filter (\<lambda>c. \<not> id_in_store db c) (calculate_chunk_ids chunks) = []"
    using assms by (simp add: filter_empty_conv)
  with add_to_chroma_cases[of db chunks] show ?thesis by auto
qed

lemma all_in_store_after:
  assumes run: "add_to_chroma db chunks = Inr r"
  shows "\<forall>c \<in> set (calculate_chunk_ids chunks). id_in_store (db_after r) c"
proof
  fix c assume c: "c \<in> set (calculate_chunk_ids chunks)"
  define new where "new = filter (\<lambda>c. \<not> id_in_store db c) (calculate_chunk_ids chunks)"
  from add_to_chroma_cases[of db chunks] run obtain ids
    where ids: "map Some ids = map chunk_id new"
      and res: "if new = [] then db_after r = db else db_after r = upsert_all db new ids"
    unfolding new_def by (auto split: if_splits)
  from ids have len: "length new = length ids"
    by (metis length_map)
  show "id_in_store (db_after r) c"
  proof (cases "id_in_store db c")
    case True
    show ?thesis
    proof (cases "new = []")
      case True
      with res \<open>id_in_store db c\<close> show ?thesis by simp
    next
      case False
      with len res have "set (db_get_ids (db_after r)) = set ids \<union> set (db_get_ids db)"
        by (simp add: upsert_all_ids)
      with True show ?thesis by (auto simp: id_in_store_def)
    qed
  next
    case False
    with c have mem: "c \<in> set new" by (simp add: new_def)
    then have nonempty: "new \<noteq> []" by auto
    with len res have keys: "set (db_get_ids (db_after r)) = set ids \<union> set (db_get_ids db)"
      by (simp add: upsert_all_ids)
    from mem have "chunk_id c \<in> set (map chunk_id new)" by simp
    then have "chunk_id c \<in> set (map Some ids)" by (simp only: ids)
    then have "chunk_id c \<in> Some ` set ids" by simp
    with keys show ?thesis by (auto simp: id_in_store_def)
  qed
qed

lemma second_run_noop:
  assumes "add_to_chroma db chunks = Inr r"
  shows "\<exists>r'. add_to_chroma (db_after r) chunks = Inr r' \<and> calls r' = [] \<and> db_after r' = db_after r"
  using noop_when_all_in_store[OF all_in_store_after[OF assms]] by simp

lemma main_result:
  assumes "main reset fs pdf_load text_splitter db = Inr r"
  shows "\<exists>documents chunks r0.
     load_documents_from_directory fs pdf_load DATA_PATH = Inr documents \<and>
     split_documents text_splitter documents 1000 200 = Inr chunks \<and>
     add_to_chroma (if reset then clear_database db else db) chunks = Inr r0 \<and>
     calls r = calls r0 \<and> db_after r = db_after r0"
  using assms by (auto simp: main_def Let_def split: sum.splits prod.splits)

lemma main_second_run_noop:
  assumes "main reset fs pdf_load text_splitter db = Inr r"
  shows "\<exists>r'. main False fs pdf_load text_splitter (db_after r) = Inr r' \<and>
     calls r' = [] \<and> db_after r' = db_after r"
proof -
  from main_result[OF assms] obtain documents chunks r0
    where l: "load_documents_from_directory fs pdf_load DATA_PATH = Inr documents"
      and s: "split_documents text_splitter documents 1000 200 = Inr chunks"
      and a: "add_to_chroma (if reset then clear_database db else db) chunks = Inr r0"
      and d: "db_after r = db_after r0"
    by blast
  from second_run_noop[OF a] obtain r'
    where "add_to_chroma (db_after r0) chunks = Inr r'" "calls r' = []" "db_after r' = db_after r0"
    by blast
  with l s d show ?thesis
    by (simp add: main_def Let_def)
qed

lemma sample_run:
  "\<exists>r. add_to_chroma sample_db batch_in_page_order = Inr r \<and>
     length (submitted_chunks (calls r)) = 2"
proof -
  define new where
    "new = filter (\<lambda>c. \<not> id_in_store sample_db c) (calculate_chunk_ids batch_in_page_order)"
  have new_ids: "map chunk_id new = map Some [PyStr ''a.pdf:0:1'', PyStr ''a.pdf:1:0'']"
    unfolding new_def by code_simp
  from add_to_chroma_cases[of sample_db batch_in_page_order] obtain ids
    where some: "map Some ids = map chunk_id new"
      and res: "add_to_chroma sample_db batch_in_page_order =
       (if new = [] then
          Inr \<lparr>output_lines = [''Number of existing documents in DB: '' @
                    str_nat (card (set (db_get_ids sample_db))), ''No new documents to add''],
               calls = [], db_after = sample_db\<rparr>
        else if \<not> distinct ids then
          Inl (DuplicateIDError,
               \<lparr>output_lines = [''Number of existing documents in DB: '' @
                    str_nat (card (set (db_get_ids sample_db))),
                    ''Adding new documents: '' @ str_nat (length new)],
                calls = [AddDocuments new ids], db_after = sample_db\<rparr>)
        else
          Inr \<lparr>output_lines = [''Number of existing documents in DB: '' @
                    str_nat (card (set (db_get_ids sample_db))),
                    ''Adding new documents: '' @ str_nat (length new)],
               calls = [AddDocuments new ids, Persist],
               db_after = upsert_all sample_db new ids\<rparr>)"
    unfolding new_def by blast
  from some new_ids have ids: "ids = [PyStr ''a.pdf:0:1'', PyStr ''a.pdf:1:0'']"
    by (simp only: inj_map_eq_map[OF inj_Some])
  from new_ids have "length (map chunk_id new) =
      length (map Some [PyStr ''a.pdf:0:1'', PyStr ''a.pdf:1:0''])"
    by (simp only:)
  then have len: "length new = 2"
    by simp
  then have "new \<noteq> []" by auto
  with res ids len show ?thesis by simp
qed

section \<open>The prompt template and joining\<close>

lemma filled_template:
  "format_template PROMPT_TEMPLATE [''context'' \<mapsto> context_text, ''question'' \<mapsto> query_text] =
     Inr (''\<newline>Answer the question based only on the following context:\<newline>\<newline>'' @ context_text @
          ''\<newline>\<newline>---\<newline>\<newline>Answer the question based on the above context: '' @ query_text @ ''\<newline>'')"
  by (simp add: format_template_def PROMPT_TEMPLATE_def)

lemma py_join_Cons: "py_join sep (x # xs) = x @ concat (map (\<lambda>y. sep @ y) xs)"
  by (induction xs arbitrary: x) simp_all

section \<open>Chunk ids: format, index, uniqueness\<close>

text \<open>
  Claim C3. As stated, with the sequence index of the data model (the position of the
  chunk among the chunks of its page), the id is not always
  \<open>source:page:sequence_index\<close>: in the interleaved batch the third chunk is the second
  chunk of the page \<open>a.pdf:0\<close>, so its sequence index is 1, and the pass writes
  \<open>a.pdf:0:0\<close>.
\<close>

theorem chunk_id_format_counterexample:
  "sequence_index batch_interleaved 2 = 1 \<and>
   chunk_id (calculate_chunk_ids batch_interleaved ! 2) = Some (PyStr ''a.pdf:0:0'') \<and>
   chunk_id (calculate_chunk_ids batch_interleaved ! 2) \<noteq>
     Some (PyStr (py_str (dict_get (metadata (batch_interleaved ! 2)) ''source'') @ '':'' @
                  py_str (dict_get (metadata (batch_interleaved ! 2)) ''page'') @ '':'' @
                  str_nat (sequence_index batch_interleaved 2)))"
  by code_simp

text \<open>
  Claim C3, amended. For every chunk processed by \<open>calculate_chunk_ids\<close> such that the
  chunks of its page up to it are adjacent in the batch, the id stored in its metadata
  is the string \<open>source:page:sequence_index\<close>. The assignment is deterministic: two
  batches that agree in the source and page of every position get the same ids. For a
  string source and an integer page, two chunks have the same page key exactly when they
  have the same source and the same page.
\<close>

theorem chunk_id_format:
  "(\<forall>i<length chunks.
      page_adjacent (page_key (chunks ! i)) (take (Suc i) (map page_key chunks)) \<longrightarrow>
      chunk_id (calculate_chunk_ids chunks ! i) =
        Some (PyStr (py_str (dict_get (metadata (chunks ! i)) ''source'') @ '':'' @
                     py_str (dict_get (metadata (chunks ! i)) ''page'') @ '':'' @
                     str_nat (sequence_index chunks i)))) \<and>
   (map source_page chunks = map source_page chunks' \<longrightarrow>
    map chunk_id (calculate_chunk_ids chunks) = map chunk_id (calculate_chunk_ids chunks')) \<and>
   (page_key (pdf_chunk s p t) = page_key (pdf_chunk s' p' t')) = (s = s' \<and> p = p')"
proof (intro conjI allI impI)
  fix i assume "i < length chunks"
    and "page_adjacent (page_key (chunks ! i)) (take (Suc i) (map page_key chunks))"
  then have "chunk_id (calculate_chunk_ids chunks ! i) =
      Some (PyStr (page_key (chunks ! i) @ '':'' @ str_nat (sequence_index chunks i)))"
    by (rule id_at_adjacent_page)
  then show "chunk_id (calculate_chunk_ids chunks ! i) =
        Some (PyStr (py_str (dict_get (metadata (chunks ! i)) ''source'') @ '':'' @
                     py_str (dict_get (metadata (chunks ! i)) ''page'') @ '':'' @
                     str_nat (sequence_index chunks i)))"
    by (simp add: page_key_def Let_def)
next
  assume "map source_page chunks = map source_page chunks'"
  then have "map page_key chunks = map page_key chunks'"
    by (rule page_keys_source_page)
  then show "map chunk_id (calculate_chunk_ids chunks) = map chunk_id (calculate_chunk_ids chunks')"
    by (rule ids_from_page_keys)
next
  show "(page_key (pdf_chunk s p t) = page_key (pdf_chunk s' p' t')) = (s = s' \<and> p = p')"
    by (rule page_key_pdf_chunk_eq)
qed

theorem chunk_id_format_witness:
  "4 < length batch_mixed \<and>
   page_adjacent (page_key (batch_mixed ! 4)) (take (Suc 4) (map page_key batch_mixed)) \<and>
   sequence_index batch_mixed 4 = 1 \<and>
   chunk_id (calculate_chunk_ids batch_mixed ! 4) = Some (PyStr ''a.pdf:1:1'') \<and>
   map source_page batch_in_page_order =
     map source_page [pdf_chunk ''a.pdf'' 0 ''p'', pdf_chunk ''a.pdf'' 0 ''q'', pdf_chunk ''a.pdf'' 1 ''r''] \<and>
   map chunk_id (calculate_chunk_ids batch_in_page_order) =
     map chunk_id (calculate_chunk_ids
       [pdf_chunk ''a.pdf'' 0 ''p'', pdf_chunk ''a.pdf'' 0 ''q'', pdf_chunk ''a.pdf'' 1 ''r''])"
proof -
  let ?other = "[pdf_chunk ''a.pdf'' 0 ''p'', pdf_chunk ''a.pdf'' 0 ''q'', pdf_chunk ''a.pdf'' 1 ''r'']"
  have pos: "4 < length batch_mixed"
    by (simp add: batch_mixed_def batch_interleaved_def)
  have adj: "page_adjacent (page_key (batch_mixed ! 4)) (take (Suc 4) (map page_key batch_mixed))"
    by code_simp
  have seq: "sequence_index batch_mixed 4 = 1"
    by code_simp
  have text_of_id:
    "py_str (dict_get (metadata (batch_mixed ! 4)) ''source'') @ '':'' @
     py_str (dict_get (metadata (batch_mixed ! 4)) ''page'') @ '':'' @
     str_nat (sequence_index batch_mixed 4) = ''a.pdf:1:1''"
    by code_simp
  have "chunk_id (calculate_chunk_ids batch_mixed ! 4) =
      Some (PyStr (py_str (dict_get (metadata (batch_mixed ! 4)) ''source'') @ '':'' @
                   py_str (dict_get (metadata (batch_mixed ! 4)) ''page'') @ '':'' @
                   str_nat (sequence_index batch_mixed 4)))"
    by (rule chunk_id_format[of batch_mixed, THEN conjunct1, rule_format, OF pos adj])
  then have id4: "chunk_id (calculate_chunk_ids batch_mixed ! 4) = Some (PyStr ''a.pdf:1:1'')"
    by (simp only: text_of_id)
  have same: "map source_page batch_in_page_order = map source_page ?other"
    by code_simp
  have ids: "map chunk_id (calculate_chunk_ids batch_in_page_order) =
      map chunk_id (calculate_chunk_ids ?other)"
    by (rule chunk_id_format[of batch_in_page_order ?other,
          THEN conjunct2, THEN conjunct1, rule_format, OF same])
  from pos adj seq id4 same ids show ?thesis by (intro conjI)
qed

text \<open>
  Claim C4. The pass goes through the batch once, from left to right, carrying only the
  previous page key and the running index. The id written at each position is the page
  key of the chunk followed by the index the specification describes: one more than the
  predecessor's index when the page key is the predecessor's, and 0 otherwise. A change
  of page key always restarts at 0, also when the new page key has been seen before.
\<close>

theorem single_pass_index:
  "length (calculate_chunk_ids chunks) = length chunks \<and>
   (\<forall>i<length chunks.
      chunk_id (calculate_chunk_ids chunks ! i) =
        Some (PyStr (page_key (chunks ! i) @ '':'' @
                     str_nat (assigned_index (map page_key chunks) i)))) \<and>
   (\<forall>i. Suc i < length chunks \<and> page_key (chunks ! Suc i) \<noteq> page_key (chunks ! i) \<longrightarrow>
      chunk_id (calculate_chunk_ids chunks ! Suc i) =
        Some (PyStr (page_key (chunks ! Suc i) @ '':0'')))"
  by (simp add: chunk_id_nth str_nat_0)

theorem single_pass_index_witness:
  "Suc 1 < length batch_interleaved \<and>
   page_key (batch_interleaved ! Suc 1) \<noteq> page_key (batch_interleaved ! 1) \<and>
   page_key (batch_interleaved ! Suc 1) = page_key (batch_interleaved ! 0) \<and>
   chunk_id (calculate_chunk_ids batch_interleaved ! Suc 1) = Some (PyStr ''a.pdf:0:0'')"
proof -
  note fact = single_pass_index[of batch_interleaved]
  have pos: "Suc 1 < length batch_interleaved"
    by (simp add: batch_interleaved_def)
  have change: "page_key (batch_interleaved ! Suc 1) \<noteq> page_key (batch_interleaved ! 1)"
    by code_simp
  have again: "page_key (batch_interleaved ! Suc 1) = page_key (batch_interleaved ! 0)"
    by code_simp
  have text_of_id: "page_key (batch_interleaved ! Suc 1) @ '':0'' = ''a.pdf:0:0''"
    by code_simp
  from fact pos change have "chunk_id (calculate_chunk_ids batch_interleaved ! Suc 1) =
      Some (PyStr (page_key (batch_interleaved ! Suc 1) @ '':0''))"
    by blast
  then have "chunk_id (calculate_chunk_ids batch_interleaved ! Suc 1) = Some (PyStr ''a.pdf:0:0'')"
    by (simp only: text_of_id)
  with pos change again show ?thesis by (intro conjI)
qed

text \<open>
  Claim C5. As stated, for every batch, the ids are not pairwise distinct: the pass
  remembers only the previous page key, so a page that comes back after another page starts
  again at index 0 and repeats an id.
\<close>

theorem ids_distinct_counterexample:
  "\<not> distinct (map chunk_id (calculate_chunk_ids batch_interleaved))"
  by code_simp

text \<open>
  Claim C5, amended. When the chunks of each page are adjacent in the batch, which is the
  order the loader and the splitter produce, the ids assigned by \<open>calculate_chunk_ids\<close>
  are pairwise distinct.
\<close>

theorem ids_distinct_when_grouped:
  "grouped (map page_key chunks) \<Longrightarrow> distinct (map chunk_id (calculate_chunk_ids chunks))"
  unfolding calculate_chunk_ids_def by (rule loop_ids_distinct)

theorem ids_distinct_when_grouped_witness:
  "grouped (map page_key batch_in_page_order) \<and>
   distinct (map chunk_id (calculate_chunk_ids batch_in_page_order))"
proof -
  have g: "grouped (map page_key batch_in_page_order)"
    by code_simp
  from g ids_distinct_when_grouped[OF g] show ?thesis by (intro conjI)
qed

text \<open>
  Claim C6. As stated, for every page key of any chunk sequence, the ids of a page with
  N chunks are not always \<open>page_key:0\<close> to \<open>page_key:N-1\<close>: in the interleaved batch the
  page \<open>a.pdf:0\<close> has two chunks and both get the id \<open>a.pdf:0:0\<close>.
\<close>

theorem page_ids_counterexample:
  "length (page_chunks ''a.pdf:0'' batch_interleaved) = 2 \<and>
   map chunk_id (page_chunks ''a.pdf:0'' (calculate_chunk_ids batch_interleaved)) =
     [Some (PyStr ''a.pdf:0:0''), Some (PyStr ''a.pdf:0:0'')] \<and>
   map chunk_id (page_chunks ''a.pdf:0'' (calculate_chunk_ids batch_interleaved)) \<noteq>
     map (page_id ''a.pdf:0'') [0 ..< length (page_chunks ''a.pdf:0'' batch_interleaved)]"
  by code_simp

text \<open>
  Claim C6, amended. For every chunk sequence and every page key whose chunks are
  adjacent in the sequence, if that page yields N chunks then the ids assigned to those
  chunks are exactly \<open>page_key:0\<close> to \<open>page_key:N-1\<close>, in order; for a page key whose
  chunks are not adjacent they are not. The other pages of the sequence do not matter.
\<close>

theorem page_ids_consecutive:
  "(map chunk_id (page_chunks k (calculate_chunk_ids chunks)) =
      map (page_id k) [0 ..< length (page_chunks k chunks)]) =
   page_adjacent k (map page_key chunks)"
proof
  assume "map chunk_id (page_chunks k (calculate_chunk_ids chunks)) =
      map (page_id k) [0 ..< length (page_chunks k chunks)]"
  then have "distinct (map chunk_id (page_chunks k (calculate_chunk_ids chunks)))"
    by (simp only: distinct_page_id_range)
  then have "distinct (map chunk_id (filter (\<lambda>c. page_key c = k)
      (calculate_chunk_ids_loop None 0 chunks)))"
    by (simp add: page_chunks_def calculate_chunk_ids_def)
  then show "page_adjacent k (map page_key chunks)"
    by (rule distinct_page_ids_adjacent[rotated]) simp
next
  assume "page_adjacent k (map page_key chunks)"
  then have "map chunk_id (filter (\<lambda>c. page_key c = k) (calculate_chunk_ids_loop None 0 chunks)) =
     map (\<lambda>m. Some (PyStr (k @ '':'' @ str_nat m)))
       [0 ..< length (filter (\<lambda>c. page_key c = k) chunks)]"
    by (rule loop_adjacent_page_ids) simp
  then show "map chunk_id (page_chunks k (calculate_chunk_ids chunks)) =
      map (page_id k) [0 ..< length (page_chunks k chunks)]"
    by (simp add: calculate_chunk_ids_def page_chunks_def page_id_def)
qed

theorem page_ids_consecutive_witness:
  "\<not> grouped (map page_key batch_mixed) \<and>
   page_adjacent ''a.pdf:1'' (map page_key batch_mixed) \<and>
   length (page_chunks ''a.pdf:1'' batch_mixed) = 2 \<and>
   map chunk_id (page_chunks ''a.pdf:1'' (calculate_chunk_ids batch_mixed)) =
     map (page_id ''a.pdf:1'') [0 ..< length (page_chunks ''a.pdf:1'' batch_mixed)] \<and>
   \<not> page_adjacent ''a.pdf:0'' (map page_key batch_mixed) \<and>
   map chunk_id (page_chunks ''a.pdf:0'' (calculate_chunk_ids batch_mixed)) \<noteq>
     map (page_id ''a.pdf:0'') [0 ..< length (page_chunks ''a.pdf:0'' batch_mixed)]"
proof -
  have ng: "\<not> grouped (map page_key batch_mixed)"
    by code_simp
  have adj: "page_adjacent ''a.pdf:1'' (map page_key batch_mixed)"
    by code_simp
  have two: "length (page_chunks ''a.pdf:1'' batch_mixed) = 2"
    by code_simp
  have comes_again: "\<not> page_adjacent ''a.pdf:0'' (map page_key batch_mixed)"
    by code_simp
  have ok: "map chunk_id (page_chunks ''a.pdf:1'' (calculate_chunk_ids batch_mixed)) =
     map (page_id ''a.pdf:1'') [0 ..< length (page_chunks ''a.pdf:1'' batch_mixed)]"
    unfolding page_ids_consecutive by (rule adj)
  have bad: "map chunk_id (page_chunks ''a.pdf:0'' (calculate_chunk_ids batch_mixed)) \<noteq>
     map (page_id ''a.pdf:0'') [0 ..< length (page_chunks ''a.pdf:0'' batch_mixed)]"
    unfolding page_ids_consecutive by (rule comes_again)
  from ng adj two ok comes_again bad show ?thesis by (intro conjI)
qed

section \<open>Frame of the id assignment\<close>

text \<open>
  Claim C10. \<open>calculate_chunk_ids\<close> returns the list it was given, so the same chunks in
  the same order and number. In the chunk objects it only writes the metadata key \<open>id\<close>:
  the text and every other metadata entry, \<open>source\<close> and \<open>page\<close> among them, stay as
  they were, and objects that are not in the list are not touched. The objects are
  changed in place: after the call, the objects the list refers to are the chunks with
  their ids (for a list without repeated objects, exactly the result of the pass on the
  chunk values).
\<close>

theorem in_place_frame:
  "fst (calculate_chunk_ids_store chunks h) = chunks \<and>
   (\<forall>r. page_content (snd (calculate_chunk_ids_store chunks h) r) = page_content (h r)) \<and>
   (\<forall>r k. k \<noteq> ''id'' \<longrightarrow>
      metadata (snd (calculate_chunk_ids_store chunks h) r) k = metadata (h r) k) \<and>
   (\<forall>r. r \<notin> set chunks \<longrightarrow> snd (calculate_chunk_ids_store chunks h) r = h r) \<and>
   (distinct chunks \<longrightarrow>
      map (snd (calculate_chunk_ids_store chunks h)) chunks = calculate_chunk_ids (map h chunks))"
  by (simp add: calculate_chunk_ids_store_def calculate_chunk_ids_def store_loop_outside
      store_loop_page_content store_loop_metadata store_loop_distinct)

theorem in_place_frame_witness:
  "fst (calculate_chunk_ids_store [0, 1, 2] sample_store) = [0, 1, 2] \<and>
   ''source'' \<noteq> ''id'' \<and>
   metadata (snd (calculate_chunk_ids_store [0, 1, 2] sample_store) 1) ''source'' =
     metadata (sample_store 1) ''source'' \<and>
   5 \<notin> set [0, 1, 2 :: nat] \<and>
   snd (calculate_chunk_ids_store [0, 1, 2] sample_store) 5 = sample_store 5 \<and>
   distinct [0, 1, 2 :: nat] \<and>
   map (snd (calculate_chunk_ids_store [0, 1, 2] sample_store)) [0, 1, 2] =
     calculate_chunk_ids (map sample_store [0, 1, 2])"
proof -
  note fact = in_place_frame[of "[0, 1, 2]" sample_store]
  have key: "''source'' \<noteq> ''id''" by simp
  have out: "5 \<notin> set [0, 1, 2 :: nat]" by simp
  have d: "distinct [0, 1, 2 :: nat]" by simp
  have a: "fst (calculate_chunk_ids_store [0, 1, 2] sample_store) = [0, 1, 2]"
    by (rule fact[THEN conjunct1])
  have b: "metadata (snd (calculate_chunk_ids_store [0, 1, 2] sample_store) 1) ''source'' =
     metadata (sample_store 1) ''source''"
    by (rule fact[THEN conjunct2, THEN conjunct2, THEN conjunct1, rule_format, OF key])
  have c: "snd (calculate_chunk_ids_store [0, 1, 2] sample_store) 5 = sample_store 5"
    by (rule fact[THEN conjunct2, THEN conjunct2, THEN conjunct2, THEN conjunct1, rule_format, OF out])
  have e: "map (snd (calculate_chunk_ids_store [0, 1, 2] sample_store)) [0, 1, 2] =
     calculate_chunk_ids (map sample_store [0, 1, 2])"
    by (rule fact[THEN conjunct2, THEN conjunct2, THEN conjunct2, THEN conjunct2, rule_format, OF d])
  from a key b out c d e show ?thesis by (intro conjI)
qed

section \<open>Incremental ingestion: idempotence and deduplication\<close>

text \<open>
  Claim C1. Ingestion is idempotent. When every id assigned to the batch is already among
  the ids of the store, \<open>add_to_chroma\<close> makes no \<open>add_documents\<close> call and no
  \<open>persist\<close> call and leaves the store as it was. Hence a second run over the same
  chunks, and a second run of the whole script over an unchanged source directory, adds
  no record.
\<close>

theorem ingestion_idempotent:
  "((\<forall>c \<in> set (calculate_chunk_ids chunks). id_in_store db c) \<longrightarrow>
      add_to_chroma db chunks =
        Inr \<lparr>output_lines =
               [''Number of existing documents in DB: '' @ str_nat (card (set (db_get_ids db))),
                ''No new documents to add''],
             calls = [], db_after = db\<rparr>) \<and>
   (\<forall>r. add_to_chroma db chunks = Inr r \<longrightarrow>
      (\<exists>r'. add_to_chroma (db_after r) chunks = Inr r' \<and> calls r' = [] \<and>
            db_after r' = db_after r)) \<and>
   (\<forall>r. main reset fs pdf_load text_splitter db = Inr r \<longrightarrow>
      (\<exists>r'. main False fs pdf_load text_splitter (db_after r) = Inr r' \<and> calls r' = [] \<and>
            db_after r' = db_after r))"
proof (intro conjI allI impI)
  assume "\<forall>c \<in> set (calculate_chunk_ids chunks). id_in_store db c"
  then show "add_to_chroma db chunks =
        Inr \<lparr>output_lines =
               [''Number of existing documents in DB: '' @ str_nat (card (set (db_get_ids db))),
                ''No new documents to add''],
             calls = [], db_after = db\<rparr>"
    by (rule noop_when_all_in_store)
next
  fix r assume "add_to_chroma db chunks = Inr r"
  then show "\<exists>r'. add_to_chroma (db_after r) chunks = Inr r' \<and> calls r' = [] \<and>
            db_after r' = db_after r"
    by (rule second_run_noop)
next
  fix r assume "main reset fs pdf_load text_splitter db = Inr r"
  then show "\<exists>r'. main False fs pdf_load text_splitter (db_after r) = Inr r' \<and> calls r' = [] \<and>
            db_after r' = db_after r"
    by (rule main_second_run_noop)
qed

theorem ingestion_idempotent_witness:
  "list_all (id_in_store sample_db) (calculate_chunk_ids [pdf_chunk ''a.pdf'' 0 ''x'']) \<and>
   add_to_chroma sample_db [pdf_chunk ''a.pdf'' 0 ''x''] =
     Inr \<lparr>output_lines =
            [''Number of existing documents in DB: '' @ str_nat (card (set (db_get_ids sample_db))),
             ''No new documents to add''],
          calls = [], db_after = sample_db\<rparr> \<and>
   (\<exists>r. add_to_chroma sample_db batch_in_page_order = Inr r \<and>
      length (submitted_chunks (calls r)) = 2 \<and>
      (\<exists>r'. add_to_chroma (db_after r) batch_in_page_order = Inr r' \<and> calls r' = [] \<and>
            db_after r' = db_after r)) \<and>
   (\<exists>r. main False one_pdf_fs sample_load sample_splitter sample_db = Inr r \<and>
      (\<exists>r'. main False one_pdf_fs sample_load sample_splitter (db_after r) = Inr r' \<and>
            calls r' = [] \<and> db_after r' = db_after r))"
proof -
  have listed: "list_all (id_in_store sample_db) (calculate_chunk_ids [pdf_chunk ''a.pdf'' 0 ''x''])"
    by code_simp
  then have stored: "\<forall>c \<in> set (calculate_chunk_ids [pdf_chunk ''a.pdf'' 0 ''x'']). id_in_store sample_db c"
    by (simp only: list_all_iff)
  note first = ingestion_idempotent[of "[pdf_chunk ''a.pdf'' 0 ''x'']" sample_db,
      THEN conjunct1, THEN mp, OF stored]
  from sample_run obtain r
    where run: "add_to_chroma sample_db batch_in_page_order = Inr r"
      and two: "length (submitted_chunks (calls r)) = 2"
    by blast
  note again = ingestion_idempotent[of batch_in_page_order sample_db,
      THEN conjunct2, THEN conjunct1, rule_format, OF run]
  from run two again have both: "add_to_chroma sample_db batch_in_page_order = Inr r \<and>
      length (submitted_chunks (calls r)) = 2 \<and>
      (\<exists>r'. add_to_chroma (db_after r) batch_in_page_order = Inr r' \<and> calls r' = [] \<and>
            db_after r' = db_after r)"
    by (intro conjI)
  have second: "\<exists>r. add_to_chroma sample_db batch_in_page_order = Inr r \<and>
      length (submitted_chunks (calls r)) = 2 \<and>
      (\<exists>r'. add_to_chroma (db_after r) batch_in_page_order = Inr r' \<and> calls r' = [] \<and>
            db_after r' = db_after r)"
    by (rule exI[of _ r]) (rule both)
  have load: "load_documents_from_directory one_pdf_fs sample_load DATA_PATH = Inr batch_in_page_order"
    by (simp add: load_documents_from_directory_def os_path_exists_def os_listdir_def
        one_pdf_fs_def sample_load_def DATA_PATH_def)
  have split: "split_documents sample_splitter batch_in_page_order 1000 200 = Inr batch_in_page_order"
    by (simp add: split_documents_def splitter_init_def sample_splitter_def batch_in_page_order_def)
  from load split run have "\<exists>m. main False one_pdf_fs sample_load sample_splitter sample_db = Inr m"
    by (simp add: main_def Let_def)
  then obtain m where m: "main False one_pdf_fs sample_load sample_splitter sample_db = Inr m" ..
  note whole = ingestion_idempotent[of _ sample_db False one_pdf_fs sample_load sample_splitter,
      THEN conjunct2, THEN conjunct2, rule_format, OF m]
  from m whole have whole_run: "main False one_pdf_fs sample_load sample_splitter sample_db = Inr m \<and>
      (\<exists>r'. main False one_pdf_fs sample_load sample_splitter (db_after m) = Inr r' \<and>
            calls r' = [] \<and> db_after r' = db_after m)"
    by (intro conjI)
  have third: "\<exists>r. main False one_pdf_fs sample_load sample_splitter sample_db = Inr r \<and>
      (\<exists>r'. main False one_pdf_fs sample_load sample_splitter (db_after r) = Inr r' \<and>
            calls r' = [] \<and> db_after r' = db_after r)"
    by (rule exI[of _ m]) (rule whole_run)
  from listed first second third show ?thesis by (intro conjI)
qed

text \<open>
  Claim C2. For every batch and every store, the chunks \<open>add_to_chroma\<close> hands to the
  store are exactly the id-tagged chunks whose id the store does not list, in batch
  order, each under its own id: no id that is in the store is submitted again, and every
  chunk whose id is absent is submitted. When the submitted ids are pairwise distinct the
  run ends and the store then lists the old ids and the submitted ones; when an id
  repeats among them the store refuses the call, nothing is stored and nothing is
  persisted.
\<close>

theorem deduplicator_submits_new:
  "(let run = effects (add_to_chroma db chunks);
        new_chunks = submitted_chunks (calls run);
        new_ids = submitted_ids (calls run)
    in new_chunks = filter (\<lambda>c. \<not> id_in_store db c) (calculate_chunk_ids chunks) \<and>
       map Some new_ids = map chunk_id new_chunks \<and>
       set new_ids \<inter> set (db_get_ids db) = {} \<and>
       (distinct new_ids \<longrightarrow>
          add_to_chroma db chunks = Inr run \<and>
          set (db_get_ids (db_after run)) = set (db_get_ids db) \<union> set new_ids) \<and>
       (\<not> distinct new_ids \<longrightarrow>
          add_to_chroma db chunks = Inl (DuplicateIDError, run) \<and>
          calls run = [AddDocuments new_chunks new_ids] \<and>
          db_after run = db))"
proof -
  define new where "new = filter (\<lambda>c. \<not> id_in_store db c) (calculate_chunk_ids chunks)"
  define run where "run = effects (add_to_chroma db chunks)"
  from add_to_chroma_cases[of db chunks] obtain ids
    where ids: "map Some ids = map chunk_id new"
      and res: "add_to_chroma db chunks =
       (if new = [] then
          Inr \<lparr>output_lines = [''Number of existing documents in DB: '' @
                    str_nat (card (set (db_get_ids db))), ''No new documents to add''],
               calls = [], db_after = db\<rparr>
        else if \<not> distinct ids then
          Inl (DuplicateIDError,
               \<lparr>output_lines = [''Number of existing documents in DB: '' @
                    str_nat (card (set (db_get_ids db))),
                    ''Adding new documents: '' @ str_nat (length new)],
                calls = [AddDocuments new ids], db_after = db\<rparr>)
        else
          Inr \<lparr>output_lines = [''Number of existing documents in DB: '' @
                    str_nat (card (set (db_get_ids db))),
                    ''Adding new documents: '' @ str_nat (length new)],
               calls = [AddDocuments new ids, Persist],
               db_after = upsert_all db new ids\<rparr>)"
    unfolding new_def by blast
  from ids have len: "length new = length ids"
    by (metis length_map)
  have empty_ids: "new = [] \<Longrightarrow> ids = []"
    using len by simp
  have sub: "submitted_chunks (calls run) = new"
    unfolding run_def res by (simp add: effects_def)
  have sid: "submitted_ids (calls run) = ids"
    unfolding run_def res using empty_ids by (auto simp: effects_def)
  have disj: "set ids \<inter> set (db_get_ids db) = {}"
  proof (rule ccontr)
    assume "set ids \<inter> set (db_get_ids db) \<noteq> {}"
    then obtain i where i: "i \<in> set ids" and st: "i \<in> set (db_get_ids db)"
      by blast
    from i have "Some i \<in> set (map Some ids)" by simp
    then have "Some i \<in> set (map chunk_id new)" by (simp only: ids)
    then obtain c where "c \<in> set new" and "chunk_id c = Some i" by auto
    then have "\<not> id_in_store db c" and "chunk_id c = Some i" by (simp_all add: new_def)
    with st show False by (simp add: id_in_store_def)
  qed
  have good: "distinct ids \<Longrightarrow> add_to_chroma db chunks = Inr run \<and>
      set (db_get_ids (db_after run)) = set (db_get_ids db) \<union> set ids"
    unfolding run_def res using empty_ids len
    by (auto simp: effects_def upsert_all_ids)
  have dup: "\<not> distinct ids \<Longrightarrow> add_to_chroma db chunks = Inl (DuplicateIDError, run) \<and>
      calls run = [AddDocuments new ids] \<and> db_after run = db"
    unfolding run_def res using empty_ids
    by (auto simp: effects_def)
  from sub sid ids disj good dup show ?thesis
    unfolding Let_def run_def[symmetric] new_def[symmetric] by simp
qed

theorem deduplicator_submits_new_witness:
  "submitted_ids (calls (effects (add_to_chroma sample_db batch_in_page_order))) =
     [PyStr ''a.pdf:0:1'', PyStr ''a.pdf:1:0''] \<and>
   distinct [PyStr ''a.pdf:0:1'', PyStr ''a.pdf:1:0''] \<and>
   isl (add_to_chroma sample_db batch_in_page_order) = False \<and>
   submitted_ids (calls (effects (add_to_chroma [] batch_interleaved))) =
     [PyStr ''a.pdf:0:0'', PyStr ''b.pdf:0:0'', PyStr ''a.pdf:0:0''] \<and>
   \<not> distinct [PyStr ''a.pdf:0:0'', PyStr ''b.pdf:0:0'', PyStr ''a.pdf:0:0''] \<and>
   add_to_chroma [] batch_interleaved =
     Inl (DuplicateIDError, effects (add_to_chroma [] batch_interleaved)) \<and>
   db_after (effects (add_to_chroma [] batch_interleaved)) = []"
proof -
  note a = deduplicator_submits_new[of sample_db batch_in_page_order, unfolded Let_def]
  note b = deduplicator_submits_new[of "[]" batch_interleaved, unfolded Let_def]
  have new_a: "map chunk_id (filter (\<lambda>c. \<not> id_in_store sample_db c)
      (calculate_chunk_ids batch_in_page_order)) =
      map Some [PyStr ''a.pdf:0:1'', PyStr ''a.pdf:1:0'']"
    by code_simp
  have new_b: "map chunk_id (filter (\<lambda>c. \<not> id_in_store [] c)
      (calculate_chunk_ids batch_interleaved)) =
      map Some [PyStr ''a.pdf:0:0'', PyStr ''b.pdf:0:0'', PyStr ''a.pdf:0:0'']"
    by code_simp
  from a new_a have "map Some (submitted_ids (calls (effects (add_to_chroma sample_db batch_in_page_order)))) =
      map Some [PyStr ''a.pdf:0:1'', PyStr ''a.pdf:1:0'']"
    by simp
  then have ids_a: "submitted_ids (calls (effects (add_to_chroma sample_db batch_in_page_order))) =
      [PyStr ''a.pdf:0:1'', PyStr ''a.pdf:1:0'']"
    by (simp only: inj_map_eq_map[OF inj_Some])
  have da: "distinct [PyStr ''a.pdf:0:1'', PyStr ''a.pdf:1:0'']"
    by simp
  from a ids_a da have "add_to_chroma sample_db batch_in_page_order =
      Inr (effects (add_to_chroma sample_db batch_in_page_order))"
    by simp
  then have ok: "isl (add_to_chroma sample_db batch_in_page_order) = False"
    by (metis sum.disc(2))
  from b new_b have "map Some (submitted_ids (calls (effects (add_to_chroma [] batch_interleaved)))) =
      map Some [PyStr ''a.pdf:0:0'', PyStr ''b.pdf:0:0'', PyStr ''a.pdf:0:0'']"
    by simp
  then have ids_b: "submitted_ids (calls (effects (add_to_chroma [] batch_interleaved))) =
      [PyStr ''a.pdf:0:0'', PyStr ''b.pdf:0:0'', PyStr ''a.pdf:0:0'']"
    by (simp only: inj_map_eq_map[OF inj_Some])
  have db: "\<not> distinct [PyStr ''a.pdf:0:0'', PyStr ''b.pdf:0:0'', PyStr ''a.pdf:0:0'']"
    by simp
  from b ids_b db have raised: "add_to_chroma [] batch_interleaved =
      Inl (DuplicateIDError, effects (add_to_chroma [] batch_interleaved))"
    and kept: "db_after (effects (add_to_chroma [] batch_interleaved)) = []"
    by simp_all
  from ids_a da ok ids_b db raised kept show ?thesis by (intro conjI)
qed

section \<open>Loader and splitter errors\<close>

text \<open>
  Claim C7. As stated, the loader does not fail for every directory without ingestible
  files: the check is on the directory having no entry at all. A directory whose only
  entry is not a PDF passes the check, and the loader returns what the PDF loader finds,
  here no document, without an error.
\<close>

theorem loader_empty_counterexample:
  "no_pdf_fs ''books'' = Some (Dir [''notes.txt'']) \<and>
   \<not> ingestible ''notes.txt'' \<and>
   load_documents_from_directory no_pdf_fs no_documents ''books'' = Inr []"
  by (simp add: load_documents_from_directory_def os_path_exists_def os_listdir_def
      no_pdf_fs_def no_documents_def ingestible_def)

text \<open>
  Claim C7, amended. The loader fails with \<open>FileNotFoundError\<close> when the path does not
  exist, fails with \<open>ValueError\<close> when the directory has no entry, and otherwise returns
  the documents the PDF loader yields; a failure returns no documents.
\<close>

theorem loader_errors:
  "(fs directory_path = None \<longrightarrow>
      load_documents_from_directory fs pdf_load directory_path =
        Inl (FileNotFoundError (''Directory '' @ directory_path @ '' does not exist''))) \<and>
   (fs directory_path = Some (Dir []) \<longrightarrow>
      load_documents_from_directory fs pdf_load directory_path =
        Inl (ValueError (''Directory '' @ directory_path @ '' is empty''))) \<and>
   (\<forall>entries. fs directory_path = Some (Dir entries) \<and> entries \<noteq> [] \<longrightarrow>
      load_documents_from_directory fs pdf_load directory_path = Inr (pdf_load directory_path))"
  by (simp add: load_documents_from_directory_def os_path_exists_def os_listdir_def)

theorem loader_errors_witness:
  "one_pdf_fs ''missing'' = None \<and>
   load_documents_from_directory one_pdf_fs sample_load ''missing'' =
     Inl (FileNotFoundError (''Directory '' @ ''missing'' @ '' does not exist'')) \<and>
   empty_dir_fs ''books'' = Some (Dir []) \<and>
   load_documents_from_directory empty_dir_fs sample_load ''books'' =
     Inl (ValueError (''Directory '' @ ''books'' @ '' is empty'')) \<and>
   one_pdf_fs ''books'' = Some (Dir [''a.pdf'']) \<and> [''a.pdf''] \<noteq> [] \<and>
   load_documents_from_directory one_pdf_fs sample_load ''books'' = Inr (sample_load ''books'')"
proof -
  have absent: "one_pdf_fs ''missing'' = None"
    by (simp add: one_pdf_fs_def)
  have empty: "empty_dir_fs ''books'' = Some (Dir [])"
    by (simp add: empty_dir_fs_def)
  have full: "one_pdf_fs ''books'' = Some (Dir [''a.pdf'']) \<and> [''a.pdf''] \<noteq> []"
    by (simp add: one_pdf_fs_def)
  note a = loader_errors[of one_pdf_fs "''missing''" sample_load, THEN conjunct1, rule_format, OF absent]
  note b = loader_errors[of empty_dir_fs "''books''" sample_load,
      THEN conjunct2, THEN conjunct1, rule_format, OF empty]
  note c = loader_errors[of one_pdf_fs "''books''" sample_load,
      THEN conjunct2, THEN conjunct2, rule_format, OF full]
  from absent a empty b full[THEN conjunct1] full[THEN conjunct2] c show ?thesis
    by (intro conjI)
qed

text \<open>
  Claim C8. As stated, a non-empty document list does not always give a chunk sequence:
  the text splitter is built from the two sizes, and for an overlap larger than the chunk
  size its constructor raises a \<open>ValueError\<close> of its own.
\<close>

theorem splitter_sizes_counterexample:
  "batch_in_page_order \<noteq> [] \<and>
   split_documents sample_splitter batch_in_page_order 100 200 =
     Inl (ValueError ''Got a larger chunk overlap (200) than chunk size (100), should be smaller.'')"
proof -
  have "str_int 200 = ''200''" and "str_int 100 = ''100''"
    by code_simp+
  then show ?thesis
    by (simp add: split_documents_def splitter_init_def batch_in_page_order_def)
qed

text \<open>
  Claim C8, amended. The splitter fails with the \<open>ValueError\<close> for missing documents
  exactly when the document list is empty. For a non-empty list and valid sizes (a
  positive chunk size and an overlap from 0 to the chunk size) it returns the chunks of
  the text splitter; for a non-empty list it fails exactly when the sizes are not valid,
  with the error of the text splitter's constructor.
\<close>

theorem splitter_empty_input:
  "(split_documents text_splitter documents chunk_size chunk_overlap =
      Inl (ValueError ''No documents to split'')) = (documents = []) \<and>
   (documents \<noteq> [] \<and> 0 < chunk_size \<and> 0 \<le> chunk_overlap \<and> chunk_overlap \<le> chunk_size \<longrightarrow>
      split_documents text_splitter documents chunk_size chunk_overlap =
        Inr (text_splitter chunk_size chunk_overlap documents)) \<and>
   (documents \<noteq> [] \<longrightarrow>
      isl (split_documents text_splitter documents chunk_size chunk_overlap) =
        (\<not> (0 < chunk_size \<and> 0 \<le> chunk_overlap \<and> chunk_overlap \<le> chunk_size)))"
  by (auto simp: split_documents_def splitter_init_def)

theorem splitter_empty_input_witness:
  "batch_in_page_order \<noteq> [] \<and> (0::int) < 1000 \<and> (0::int) \<le> 200 \<and> (200::int) \<le> 1000 \<and>
   split_documents sample_splitter batch_in_page_order 1000 200 =
     Inr (sample_splitter 1000 200 batch_in_page_order) \<and>
   split_documents sample_splitter [] 1000 200 = Inl (ValueError ''No documents to split'') \<and>
   isl (split_documents sample_splitter batch_in_page_order 100 200) = True"
proof -
  have nonempty: "batch_in_page_order \<noteq> []"
    by (simp add: batch_in_page_order_def)
  have sizes: "(0::int) < 1000 \<and> (0::int) \<le> 200 \<and> (200::int) \<le> 1000"
    by simp
  from nonempty sizes have valid: "batch_in_page_order \<noteq> [] \<and> (0::int) < 1000 \<and>
      (0::int) \<le> 200 \<and> (200::int) \<le> 1000"
    by (intro conjI) simp_all
  note a = splitter_empty_input[of sample_splitter batch_in_page_order 1000 200,
      THEN conjunct2, THEN conjunct1, rule_format, OF valid]
  have b: "split_documents sample_splitter [] 1000 200 = Inl (ValueError ''No documents to split'')"
    using splitter_empty_input[of sample_splitter "[]" 1000 200, THEN conjunct1] by simp
  have c: "isl (split_documents sample_splitter batch_in_page_order 100 200) = True"
    using splitter_empty_input[of sample_splitter batch_in_page_order 100 200,
      THEN conjunct2, THEN conjunct2, rule_format, OF nonempty] by simp
  from nonempty sizes[THEN conjunct1] sizes[THEN conjunct2, THEN conjunct1]
    sizes[THEN conjunct2, THEN conjunct2] a b c
  show ?thesis by (intro conjI)
qed

section \<open>Query output\<close>

text \<open>
  Claim C9. For every query and every ranked result list of the search, \<open>query_rag\<close>
  joins the texts of the retrieved chunks in ranked order with the delimiter of two
  newlines, three dashes and two newlines, puts that context and the query into the two
  slots of the prompt template, passes the rendered prompt to the model, and prints
  \<open>Response:\<close> with the generated text, then on a new line \<open>Sources:\<close> with the list
  holding, in ranked order, the id of each retrieved chunk, or Python's \<open>None\<close> for a
  chunk without id. It returns the generated text.
\<close>

theorem query_rag_output:
  "query_rag search chat_to_string model_invoke repr_str query_text =
     (let results = search query_text 5;
          context_text = py_join ''\<newline>\<newline>---\<newline>\<newline>'' (map (\<lambda>r. page_content (fst r)) results);
          response_text = model_invoke (chat_to_string
            (''\<newline>Answer the question based only on the following context:\<newline>\<newline>'' @ context_text @
             ''\<newline>\<newline>---\<newline>\<newline>Answer the question based on the above context: '' @
             query_text @ ''\<newline>''));
          sources = map (\<lambda>r. case chunk_id (fst r) of None \<Rightarrow> PyNone | Some v \<Rightarrow> v) results
      in Inr \<lparr>printed = ''Response: '' @ response_text @ ''\<newline>Sources: ['' @
                         py_join '', '' (map (py_repr repr_str) sources) @ '']'',
              returned = response_text\<rparr>) \<and>
   py_join sep [] = [] \<and>
   py_join sep (x # xs) = x @ concat (map (\<lambda>y. sep @ y) xs) \<and>
   py_repr repr_str PyNone = ''None''"
proof -
  have run: "query_rag search chat_to_string model_invoke repr_str query_text =
     (let results = search query_text 5;
          context_text = py_join ''\<newline>\<newline>---\<newline>\<newline>'' (map (\<lambda>r. page_content (fst r)) results);
          response_text = model_invoke (chat_to_string
            (''\<newline>Answer the question based only on the following context:\<newline>\<newline>'' @ context_text @
             ''\<newline>\<newline>---\<newline>\<newline>Answer the question based on the above context: '' @
             query_text @ ''\<newline>''));
          sources = map (\<lambda>r. case chunk_id (fst r) of None \<Rightarrow> PyNone | Some v \<Rightarrow> v) results
      in Inr \<lparr>printed = ''Response: '' @ response_text @ ''\<newline>Sources: ['' @
                         py_join '', '' (map (py_repr repr_str) sources) @ '']'',
              returned = response_text\<rparr>)"
    unfolding query_rag_def Let_def filled_template
    by (simp add: py_repr_list_def dict_get_def chunk_id_def case_prod_unfold)
  have "py_join sep (x # xs) = x @ concat (map (\<lambda>y. sep @ y) xs)"
    by (rule py_join_Cons)
  with run show ?thesis by simp
qed

theorem query_rag_output_example:
  "query_rag sample_search human_chat fixed_model quote_repr ''why'' =
     Inr \<lparr>printed = ''Response: ok\<newline>Sources: ['a.pdf:0:0', None]'', returned = ''ok''\<rparr>"
proof -
  note fact = query_rag_output[of sample_search human_chat fixed_model quote_repr "''why''",
      THEN conjunct1]
  have src: "map (\<lambda>r. case chunk_id (fst r) of None \<Rightarrow> PyNone | Some v \<Rightarrow> v) (sample_search ''why'' 5) =
      [PyStr ''a.pdf:0:0'', PyNone]"
    by (simp add: sample_search_def chunk_id_def pdf_chunk_def)
  show ?thesis
    unfolding fact Let_def src
    by (simp add: fixed_model_def quote_repr_def)
qed

end
